theory Spec2Isabelle
  imports Complex_Main "HOL-Library.Signed_Division" "HOL-Library.Monad_Syntax"
begin

section \<open>Conventions of the embedding\<close>

text \<open>
  The theory embeds the parts of \<^verbatim>\<open>integrators/mlt.cpp\<close> and
  \<^verbatim>\<open>pbrt/integrators/bdpt.cpp\<close> that the verified properties are about.

  \<^item> \<^verbatim>\<open>Float\<close> is a type variable \<open>'f\<close> that carries only the operations the code
    applies to it (\<open>0\<close>, \<open>1\<close>, \<open>+\<close>, \<open>-\<close>, \<open>*\<close>, \<open>/\<close>, \<open><\<close>) and no algebraic law, so
    nothing proved here depends on how the arithmetic rounds or on what a division by
    zero yields. \<^verbatim>\<open>Spectrum\<close> is a type variable \<open>'s\<close> in the same way.
  \<^item> \<^verbatim>\<open>int\<close> and \<^verbatim>\<open>int64_t\<close> values are HOL integers; the counters and indices
    stay far inside the machine ranges (see \<open>bufferCount_fits_int32\<close> for the one
    product that is computed from a user parameter).
  \<^item> The collaborators that live outside the two files (random number generator,
    math library, spectrum arithmetic, scene, camera, lights, film) are parameters:
    records of functions that the embedded code calls.
  \<^item> A result of type \<open>option\<close> is \<open>None\<close> where the C++ would dereference a null
    pointer or index outside an array. A result \<open>Inl CheckFailed\<close> is a fatal
    \<^verbatim>\<open>CHECK\<close>, a result \<open>Inl InvalidAccess\<close> an access without defined behaviour.
\<close>

primrec for_each :: "('a \<Rightarrow> 'st \<Rightarrow> 'st option) \<Rightarrow> 'a list \<Rightarrow> 'st \<Rightarrow> 'st option" where
  "for_each body [] st = Some st"
| "for_each body (x # xs) st =
     (case body x st of None \<Rightarrow> None | Some st' \<Rightarrow> for_each body xs st')"

text \<open>\<^verbatim>\<open>v[i] = x\<close> on a \<^verbatim>\<open>std::vector\<close>: defined only inside the vector.\<close>

definition vector_store :: "'a list \<Rightarrow> int \<Rightarrow> 'a \<Rightarrow> 'a list option" where
  "vector_store xs i v =
     (if 0 \<le> i \<and> i < int (length xs) then Some (xs[nat i := v]) else None)"

text \<open>\<^verbatim>\<open>std::min(a, b)\<close> returns \<open>b\<close> if \<open>b < a\<close> and \<open>a\<close> otherwise.\<close>

definition std_min :: "'f::ord \<Rightarrow> 'f \<Rightarrow> 'f" where
  "std_min a b = (if b < a then b else a)"


section \<open>The primary-sample-space sampler (\<^verbatim>\<open>MLTSampler\<close>)\<close>

text \<open>
  Modelled from the spec: \<^verbatim>\<open>PrimarySample\<close> is declared in \<^verbatim>\<open>integrators/mlt.h\<close>,
  which is not among the sources. A coordinate holds its value, the iteration of its
  last modification, and the backup of both that \<^verbatim>\<open>Backup\<close> takes before a mutation
  and \<^verbatim>\<open>Restore\<close> puts back on rejection. A coordinate that \<^verbatim>\<open>resize\<close> creates is
  zero in every field.
\<close>

record 'f PrimarySample =
  sample_value :: 'f
  lastModificationIteration :: int
  valueBackup :: 'f
  modifyBackup :: int

definition PrimarySample_default :: "'f::zero PrimarySample" where
  "PrimarySample_default =
     \<lparr>sample_value = 0, lastModificationIteration = 0, valueBackup = 0, modifyBackup = 0\<rparr>"

definition Backup :: "'f PrimarySample \<Rightarrow> 'f PrimarySample" where
  "Backup Xi = Xi\<lparr>valueBackup := sample_value Xi,
                  modifyBackup := lastModificationIteration Xi\<rparr>"

definition Restore :: "'f PrimarySample \<Rightarrow> 'f PrimarySample" where
  "Restore Xi = Xi\<lparr>sample_value := valueBackup Xi,
                   lastModificationIteration := modifyBackup Xi\<rparr>"

text \<open>The fields of \<^verbatim>\<open>MLTSampler\<close> that its methods in \<^verbatim>\<open>mlt.cpp\<close> read and write.\<close>

record ('f, 'r) MLTSampler =
  samplesPerPixel :: int
  rng :: 'r
  sigma :: 'f
  largeStepProbability :: 'f
  streamCount :: int
  X :: "'f PrimarySample list"
  currentIteration :: int
  largeStep :: bool
  lastLargeStepIteration :: int
  streamIndex :: int
  sampleIndex :: int

text \<open>
  The random number generator and the math library: \<open>RNG_seed\<close> is the constructor
  \<^verbatim>\<open>RNG(sequenceIndex)\<close>, \<open>UniformFloat\<close> draws one number and advances the generator.
\<close>

record ('f, 'r) float_env =
  RNG_seed :: "int \<Rightarrow> 'r"
  UniformFloat :: "'r \<Rightarrow> 'f \<times> 'r"
  Sqrt2 :: 'f
  ErfInv :: "'f \<Rightarrow> 'f"
  std_sqrt :: "'f \<Rightarrow> 'f"
  std_floor :: "'f \<Rightarrow> 'f"
  Float_of_int :: "int \<Rightarrow> 'f"

text \<open>
  Modelled from the spec: the constructor of \<^verbatim>\<open>MLTSampler\<close> is declared in
  \<^verbatim>\<open>integrators/mlt.h\<close>, which is not among the sources. The generator is seeded with
  the sequence index, no coordinate exists, the iteration counter and the last large
  step are 0, and the first use (the bootstrap sample, drawn before any
  \<^verbatim>\<open>StartIteration\<close>) is a large step. The spec does not say what the stream cursor
  holds before the first \<^verbatim>\<open>StartStream\<close>; the model takes it as the argument \<open>cursor\<close>.
\<close>

definition MLTSampler_new ::
  "('f, 'r) float_env \<Rightarrow> int \<Rightarrow> int \<Rightarrow> 'f \<Rightarrow> 'f \<Rightarrow> int \<Rightarrow> int \<times> int
     \<Rightarrow> ('f, 'r) MLTSampler" where
  "MLTSampler_new E mutationsPerPixel rngSequenceIndex sig lsp nStreams cursor =
     \<lparr>samplesPerPixel = mutationsPerPixel, rng = RNG_seed E rngSequenceIndex, sigma = sig,
      largeStepProbability = lsp, streamCount = nStreams, X = [],
      currentIteration = 0, largeStep = True, lastLargeStepIteration = 0,
      streamIndex = fst cursor, sampleIndex = snd cursor\<rparr>"

definition StartIteration ::
  "('f::ord, 'r) float_env \<Rightarrow> ('f, 'r) MLTSampler \<Rightarrow> ('f, 'r) MLTSampler" where
  "StartIteration E S =
     (let (u, r) = UniformFloat E (rng S)
      in S\<lparr>currentIteration := currentIteration S + 1,
           rng := r,
           largeStep := (u < largeStepProbability S)\<rparr>)"

definition Accept :: "('f, 'r) MLTSampler \<Rightarrow> ('f, 'r) MLTSampler" where
  "Accept S = (if largeStep S then S\<lparr>lastLargeStepIteration := currentIteration S\<rparr> else S)"

text \<open>\<^verbatim>\<open>std::vector::resize\<close>: new elements are value-initialised.\<close>

definition resize :: "'f::zero PrimarySample list \<Rightarrow> nat \<Rightarrow> 'f PrimarySample list" where
  "resize xs n = take n xs @ replicate (n - length xs) PrimarySample_default"

text \<open>
  \<^verbatim>\<open>EnsureReady\<close>, statement by statement; the successive values of the reference
  \<^verbatim>\<open>Xi\<close> are the successive bindings of \<open>Xi\<close>, written back into \<open>X\<close> at the end.
\<close>

definition EnsureReady ::
  "('f::{zero,one,plus,minus,times,ord}, 'r) float_env \<Rightarrow> nat \<Rightarrow> ('f, 'r) MLTSampler
     \<Rightarrow> ('f, 'r) MLTSampler" where
  "EnsureReady E index S =
     (let X1 = (if index \<ge> length (X S) then resize (X S) (index + 1) else X S);
          Xi = X1 ! index;
          (Xi, r) =
            (if lastModificationIteration Xi < lastLargeStepIteration S
             then (let (u, r) = UniformFloat E (rng S)
                   in (Xi\<lparr>sample_value := u,
                           lastModificationIteration := lastLargeStepIteration S\<rparr>, r))
             else (Xi, rng S));
          Xi = Backup Xi;
          (Xi, r) =
            (if largeStep S
             then (let (u, r) = UniformFloat E r in (Xi\<lparr>sample_value := u\<rparr>, r))
             else (let nSmall = currentIteration S - lastModificationIteration Xi;
                       (u, r) = UniformFloat E r;
                       normalSample = Sqrt2 E * ErfInv E ((1 + 1) * u - 1);
                       effSigma = sigma S * std_sqrt E (Float_of_int E nSmall);
                       v = sample_value Xi + normalSample * effSigma;
                       v = v - std_floor E v
                   in (Xi\<lparr>sample_value := v\<rparr>, r)));
          Xi = Xi\<lparr>lastModificationIteration := currentIteration S\<rparr>
      in S\<lparr>X := X1[index := Xi], rng := r\<rparr>)"

definition Reject :: "('f, 'r) MLTSampler \<Rightarrow> ('f, 'r) MLTSampler" where
  "Reject S =
     S\<lparr>X := map (\<lambda>Xi. if lastModificationIteration Xi = currentIteration S
                         then Restore Xi else Xi) (X S),
       currentIteration := currentIteration S - 1\<rparr>"

datatype fault = CheckFailed | InvalidAccess

text \<open>
  Modelled from the spec: \<^verbatim>\<open>GetNextIndex\<close> is declared in \<^verbatim>\<open>integrators/mlt.h\<close>, which
  is not among the sources. The coordinate sequence is partitioned into \<open>streamCount\<close>
  interleaved streams; the cursor \<open>sampleIndex\<close> counts the draws from the current
  stream.
\<close>

definition GetNextIndex :: "('f, 'r) MLTSampler \<Rightarrow> int \<times> ('f, 'r) MLTSampler" where
  "GetNextIndex S =
     (streamIndex S + streamCount S * sampleIndex S, S\<lparr>sampleIndex := sampleIndex S + 1\<rparr>)"

text \<open>A negative index into \<^verbatim>\<open>X\<close> has no defined behaviour: \<open>InvalidAccess\<close>.\<close>

definition Get1D ::
  "('f::{zero,one,plus,minus,times,ord}, 'r) float_env \<Rightarrow> ('f, 'r) MLTSampler
     \<Rightarrow> fault + ('f \<times> ('f, 'r) MLTSampler)" where
  "Get1D E S =
     (let (index, S1) = GetNextIndex S
      in if index < 0 then Inl InvalidAccess
         else (let S2 = EnsureReady E (nat index) S1
               in Inr (sample_value (X S2 ! nat index), S2)))"

definition Get2D ::
  "('f::{zero,one,plus,minus,times,ord}, 'r) float_env \<Rightarrow> ('f, 'r) MLTSampler
     \<Rightarrow> fault + (('f \<times> 'f) \<times> ('f, 'r) MLTSampler)" where
  "Get2D E S =
     (case Get1D E S of
        Inl e \<Rightarrow> Inl e
      | Inr (x, S1) \<Rightarrow>
          (case Get1D E S1 of
             Inl e \<Rightarrow> Inl e
           | Inr (y, S2) \<Rightarrow> Inr ((x, y), S2)))"

text \<open>\<^verbatim>\<open>CHECK_LT(index, streamCount)\<close> aborts the program when it fails.\<close>

definition StartStream :: "int \<Rightarrow> ('f, 'r) MLTSampler \<Rightarrow> fault + ('f, 'r) MLTSampler" where
  "StartStream index S =
     (if index < streamCount S then Inr (S\<lparr>streamIndex := index, sampleIndex := 0\<rparr>)
      else Inl CheckFailed)"

text \<open>
  A call sequence on one sampler and the stream of values it returns. \<open>Get2D\<close> returns
  its two numbers in the order drawn.
\<close>

datatype sampler_call =
  CallStartIteration | CallGet1D | CallGet2D | CallAccept | CallReject | CallStartStream int

fun sampler_step ::
  "('f::{zero,one,plus,minus,times,ord}, 'r) float_env \<Rightarrow> sampler_call \<Rightarrow> ('f, 'r) MLTSampler
     \<Rightarrow> fault + ('f list \<times> ('f, 'r) MLTSampler)" where
  "sampler_step E CallStartIteration S = Inr ([], StartIteration E S)"
| "sampler_step E CallGet1D S =
     (case Get1D E S of Inl e \<Rightarrow> Inl e | Inr (x, S') \<Rightarrow> Inr ([x], S'))"
| "sampler_step E CallGet2D S =
     (case Get2D E S of Inl e \<Rightarrow> Inl e | Inr ((x, y), S') \<Rightarrow> Inr ([x, y], S'))"
| "sampler_step E CallAccept S = Inr ([], Accept S)"
| "sampler_step E CallReject S = Inr ([], Reject S)"
| "sampler_step E (CallStartStream index) S =
     (case StartStream index S of Inl e \<Rightarrow> Inl e | Inr S' \<Rightarrow> Inr ([], S'))"

fun sampler_run ::
  "('f::{zero,one,plus,minus,times,ord}, 'r) float_env \<Rightarrow> sampler_call list
     \<Rightarrow> ('f, 'r) MLTSampler \<Rightarrow> fault + ('f list \<times> ('f, 'r) MLTSampler)" where
  "sampler_run E [] S = Inr ([], S)"
| "sampler_run E (c # cs) S =
     (case sampler_step E c S of
        Inl e \<Rightarrow> Inl e
      | Inr (vs, S') \<Rightarrow>
          (case sampler_run E cs S' of
             Inl e \<Rightarrow> Inl e
           | Inr (ws, S'') \<Rightarrow> Inr (vs @ ws, S'')))"


subsection \<open>Iterations, draws and well-formed sampler states\<close>



fun draws :: "sampler_call list \<Rightarrow> nat" where
  "draws [] = 0"
| "draws (CallGet1D # cs) = 1 + draws cs"
| "draws (CallGet2D # cs) = 2 + draws cs"
| "draws (c # cs) = draws cs"

definition only_gets :: "sampler_call list \<Rightarrow> bool" where
  "only_gets cs = list_all (\<lambda>c. c = CallGet1D \<or> c = CallGet2D) cs"

definition cursor_ok :: "('f, 'r) MLTSampler \<Rightarrow> bool" where
  "cursor_ok S = (0 \<le> streamIndex S \<and> 1 \<le> streamCount S \<and> 0 \<le> sampleIndex S)"

definition coords_not_ahead :: "('f, 'r) MLTSampler \<Rightarrow> bool" where
  "coords_not_ahead S =
     list_all (\<lambda>Xi. lastModificationIteration Xi \<le> currentIteration S) (X S)"

definition coord_before :: "('f::zero, 'r) MLTSampler \<Rightarrow> nat \<Rightarrow> 'f PrimarySample" where
  "coord_before S i = (if i < length (X S) then X S ! i else PrimarySample_default)"

fun drawn :: "int \<Rightarrow> int \<times> int \<Rightarrow> sampler_call list \<Rightarrow> int list" where
  "drawn n cur [] = []"
| "drawn n (si, k) (CallGet1D # cs) = (si + n * k) # drawn n (si, k + 1) cs"
| "drawn n (si, k) (CallGet2D # cs) =
     (si + n * k) # (si + n * (k + 1)) # drawn n (si, k + 2) cs"
| "drawn n (si, k) (CallStartStream index # cs) = drawn n (index, 0) cs"
| "drawn n cur (c # cs) = drawn n cur cs"

fun proposal_call :: "int \<Rightarrow> sampler_call \<Rightarrow> bool" where
  "proposal_call n CallGet1D = True"
| "proposal_call n CallGet2D = True"
| "proposal_call n (CallStartStream index) = (index < n)"
| "proposal_call n c = False"

definition proposal_ok :: "('f, 'r) MLTSampler \<Rightarrow> sampler_call list \<Rightarrow> bool" where
  "proposal_ok S cs \<longleftrightarrow>
     list_all (proposal_call (streamCount S)) cs \<and>
     distinct (drawn (streamCount S) (streamIndex S, sampleIndex S) cs) \<and>
     list_all (\<lambda>j. 0 \<le> j) (drawn (streamCount S) (streamIndex S, sampleIndex S) cs)"

definition touched_by :: "('f, 'r) MLTSampler \<Rightarrow> sampler_call list \<Rightarrow> nat set" where
  "touched_by S cs = nat ` set (drawn (streamCount S) (streamIndex S, sampleIndex S) cs)"

definition mid_iteration ::
  "('f::zero, 'r) MLTSampler \<Rightarrow> nat set \<Rightarrow> ('f, 'r) MLTSampler \<Rightarrow> bool" where
  "mid_iteration S0 T S \<longleftrightarrow>
     currentIteration S = currentIteration S0 + 1 \<and>
     lastLargeStepIteration S = lastLargeStepIteration S0 \<and>
     streamCount S = streamCount S0 \<and>
     length (X S0) \<le> length (X S) \<and>
     T \<subseteq> {..<length (X S)} \<and>
     (\<forall>i<length (X S).
        if i \<in> T
        then lastModificationIteration (X S ! i) = currentIteration S0 + 1 \<and>
             (modifyBackup (X S ! i) = lastModificationIteration (coord_before S0 i) \<or>
              modifyBackup (X S ! i) = lastLargeStepIteration S0) \<and>
             (lastLargeStepIteration S0 \<le> lastModificationIteration (coord_before S0 i) \<longrightarrow>
                valueBackup (X S ! i) = sample_value (coord_before S0 i) \<and>
                modifyBackup (X S ! i) = lastModificationIteration (coord_before S0 i))
        else X S ! i = coord_before S0 i)"

definition stream_calls :: "(int \<times> sampler_call list) list \<Rightarrow> sampler_call list" where
  "stream_calls segs = concat (map (\<lambda>(index, A). CallStartStream index # A) segs)"



definition sampler_inv :: "('f, 'r) MLTSampler \<Rightarrow> bool" where
  "sampler_inv S \<longleftrightarrow>
     0 \<le> currentIteration S \<and> lastLargeStepIteration S \<le> currentIteration S \<and>
     coords_not_ahead S"


section \<open>The Markov-chain renderer (\<^verbatim>\<open>MLTIntegrator::Render\<close>)\<close>

definition cameraStreamIndex :: int where "cameraStreamIndex = 0"
definition lightStreamIndex :: int where "lightStreamIndex = 1"
definition connectionStreamIndex :: int where "connectionStreamIndex = 2"
definition nSampleStreams :: int where "nSampleStreams = 3"

text \<open>
  \<^verbatim>\<open>Spectrum\<close> arithmetic with a \<^verbatim>\<open>Float\<close>: \<open>lum\<close> is \<^verbatim>\<open>Spectrum::y()\<close>, \<open>scale\<close> is
  \<^verbatim>\<open>Spectrum * Float\<close> and \<open>shrink\<close> is \<^verbatim>\<open>Spectrum / Float\<close>.
\<close>

record ('f, 's) spectrum_env =
  lum :: "'s \<Rightarrow> 'f"
  scale :: "'s \<Rightarrow> 'f \<Rightarrow> 's"
  shrink :: "'s \<Rightarrow> 'f \<Rightarrow> 's"

text \<open>
  The bootstrap loop, lines 194 to 209. The radiance function \<^verbatim>\<open>MLTIntegrator::L\<close> is
  the parameter \<open>Lfun\<close>: it takes the sampler and the depth and returns the radiance,
  the raster position and the sampler. \<open>progressUpdates\<close> counts the calls of
  \<^verbatim>\<open>progress.Update()\<close>.
\<close>

record 'f bootstrap_state =
  bootstrapWeights :: "'f list"
  progressUpdates :: nat

definition bootstrap_weight ::
  "('f, 'r) float_env \<Rightarrow> ('f, 's) spectrum_env
     \<Rightarrow> (('f, 'r) MLTSampler \<Rightarrow> int \<Rightarrow> 's \<times> 'p \<times> ('f, 'r) MLTSampler)
     \<Rightarrow> int \<Rightarrow> 'f \<Rightarrow> 'f \<Rightarrow> int \<times> int \<Rightarrow> int \<Rightarrow> int \<Rightarrow> 'f" where
  "bootstrap_weight E SP Lfun mutationsPerPixel sig lsp cursor rngIndex depth =
     (let sampler = MLTSampler_new E mutationsPerPixel rngIndex sig lsp nSampleStreams cursor
      in lum SP (fst (Lfun sampler depth)))"

definition bootstrap_sample ::
  "(int \<Rightarrow> int \<Rightarrow> 'f) \<Rightarrow> int \<Rightarrow> int \<Rightarrow> int \<Rightarrow> 'f bootstrap_state
     \<Rightarrow> 'f bootstrap_state option" where
  "bootstrap_sample weight maxDepth i depth B =
     (let rngIndex = i * (maxDepth + 1) + depth
      in map_option (\<lambda>ws. B\<lparr>bootstrapWeights := ws\<rparr>)
           (vector_store (bootstrapWeights B) rngIndex (weight rngIndex depth)))"

text \<open>
  The condition of line 207 as C++ parses it: \<^verbatim>\<open>%\<close> binds tighter than \<^verbatim>\<open>+\<close>, so
  \<^verbatim>\<open>(i + 1 % 256) == 0\<close> is \<^verbatim>\<open>(i + (1 % 256)) == 0\<close>.
\<close>

definition progress_due :: "int \<Rightarrow> bool" where
  "progress_due i = (i + (1 mod 256) = 0)"

definition bootstrap_candidate ::
  "(int \<Rightarrow> int \<Rightarrow> 'f) \<Rightarrow> int \<Rightarrow> int \<Rightarrow> 'f bootstrap_state \<Rightarrow> 'f bootstrap_state option" where
  "bootstrap_candidate weight maxDepth i B =
     (case for_each (bootstrap_sample weight maxDepth i) [0..maxDepth] B of
        None \<Rightarrow> None
      | Some B' \<Rightarrow>
          Some (if progress_due i then B'\<lparr>progressUpdates := progressUpdates B' + 1\<rparr>
                else B'))"

text \<open>The body that \<^verbatim>\<open>ParallelFor\<close> runs on one chunk \<open>[start, end)\<close> of candidates.\<close>

definition bootstrap_chunk ::
  "('f, 'r) float_env \<Rightarrow> ('f, 's) spectrum_env
     \<Rightarrow> (('f, 'r) MLTSampler \<Rightarrow> int \<Rightarrow> 's \<times> 'p \<times> ('f, 'r) MLTSampler)
     \<Rightarrow> int \<Rightarrow> 'f \<Rightarrow> 'f \<Rightarrow> int \<times> int \<Rightarrow> int \<Rightarrow> int \<Rightarrow> int \<Rightarrow> 'f bootstrap_state
     \<Rightarrow> 'f bootstrap_state option" where
  "bootstrap_chunk E SP Lfun mutationsPerPixel sig lsp cursor maxDepth start fin B =
     for_each
       (bootstrap_candidate (bootstrap_weight E SP Lfun mutationsPerPixel sig lsp cursor)
          maxDepth)
       [start..fin - 1] B"

text \<open>
  One step of a Markov chain, lines 243 to 270. \<open>film\<close> is the sequence of
  \<^verbatim>\<open>AddSplat\<close> calls made so far, each with its raster position and its value.
\<close>

record ('f, 's, 'p, 'r) chain_state =
  pCurrent :: 'p
  LCurrent :: 's
  sampler :: "('f, 'r) MLTSampler"
  chain_rng :: 'r
  film :: "('p \<times> 's) list"
  acceptedMutations :: nat
  totalMutations :: nat

definition AddSplat :: "('p \<times> 's) list \<Rightarrow> 'p \<Rightarrow> 's \<Rightarrow> ('p \<times> 's) list" where
  "AddSplat fm p v = fm @ [(p, v)]"

definition acceptance ::
  "('f::{one,inverse,ord}, 's) spectrum_env \<Rightarrow> 's \<Rightarrow> 's \<Rightarrow> 'f" where
  "acceptance SP LProposed LCur = std_min 1 (lum SP LProposed / lum SP LCur)"

definition chain_step ::
  "('f::{zero,one,minus,inverse,ord}, 'r) float_env \<Rightarrow> ('f, 's) spectrum_env
     \<Rightarrow> (('f, 'r) MLTSampler \<Rightarrow> int \<Rightarrow> 's \<times> 'p \<times> ('f, 'r) MLTSampler)
     \<Rightarrow> int \<Rightarrow> ('f, 's, 'p, 'r) chain_state \<Rightarrow> ('f, 's, 'p, 'r) chain_state" where
  "chain_step E SP Lfun depth C =
     (let S1 = StartIteration E (sampler C);
          (LProposed, pProposed, S2) = Lfun S1 depth;
          accept = std_min 1 (lum SP LProposed / lum SP (LCurrent C));
          film1 = (if 0 < accept
                   then AddSplat (film C) pProposed
                          (shrink SP (scale SP LProposed accept) (lum SP LProposed))
                   else film C);
          film2 = AddSplat film1 (pCurrent C)
                    (shrink SP (scale SP (LCurrent C) (1 - accept)) (lum SP (LCurrent C)));
          (u, r) = UniformFloat E (chain_rng C)
      in if u < accept
         then C\<lparr>pCurrent := pProposed, LCurrent := LProposed, sampler := Accept S2,
                chain_rng := r, film := film2,
                acceptedMutations := acceptedMutations C + 1,
                totalMutations := totalMutations C + 1\<rparr>
         else C\<lparr>sampler := Reject S2, chain_rng := r, film := film2,
                totalMutations := totalMutations C + 1\<rparr>)"


section \<open>Vertices, subpaths and scoped assignments (\<^verbatim>\<open>bdpt.cpp\<close>)\<close>

text \<open>
  Modelled from the spec: \<^verbatim>\<open>Vertex\<close> is declared in \<^verbatim>\<open>pbrt/integrators/bdpt.h\<close>,
  which is not among the sources. A vertex is a tagged record of one path node with
  its throughput \<open>beta\<close>, its densities \<open>pdfFwd\<close> and \<open>pdfRev\<close>, its \<open>delta\<close> flag and
  the interaction record supplied from outside, which the code here only hands on.
\<close>

datatype VertexType = Camera | Light | Surface | Medium

datatype TransportMode = Radiance | Importance

record ('f, 's, 'i) Vertex =
  vtype :: VertexType
  beta :: 's
  interaction :: 'i
  delta :: bool
  pdfFwd :: 'f
  pdfRev :: 'f

text \<open>
  The two subpath arrays that \<^verbatim>\<open>MISWeight\<close> and \<^verbatim>\<open>ConnectBDPT\<close> receive as
  \<^verbatim>\<open>Vertex *\<close>. A pointer to a vertex names the array and the index, \<open>None\<close> is
  \<^verbatim>\<open>nullptr\<close>. \<open>deref\<close> reads through a pointer; it has no value for \<^verbatim>\<open>nullptr\<close> or
  outside the array. \<open>deref_arg\<close> reads a pointer that is passed as a pointer argument
  and may be null.
\<close>

datatype subpath = LightSubpath | CameraSubpath

record ('f, 's, 'i) subpaths =
  lightVertices :: "('f, 's, 'i) Vertex list"
  cameraVertices :: "('f, 's, 'i) Vertex list"

type_synonym vertex_ptr = "(subpath \<times> nat) option"

fun vertices :: "('f, 's, 'i) subpaths \<Rightarrow> subpath \<Rightarrow> ('f, 's, 'i) Vertex list" where
  "vertices m LightSubpath = lightVertices m"
| "vertices m CameraSubpath = cameraVertices m"

fun set_vertices ::
  "('f, 's, 'i) subpaths \<Rightarrow> subpath \<Rightarrow> ('f, 's, 'i) Vertex list \<Rightarrow> ('f, 's, 'i) subpaths" where
  "set_vertices m LightSubpath vs = m\<lparr>lightVertices := vs\<rparr>"
| "set_vertices m CameraSubpath vs = m\<lparr>cameraVertices := vs\<rparr>"

fun deref :: "('f, 's, 'i) subpaths \<Rightarrow> vertex_ptr \<Rightarrow> ('f, 's, 'i) Vertex option" where
  "deref m None = None"
| "deref m (Some (a, i)) = (if i < length (vertices m a) then Some (vertices m a ! i) else None)"

fun deref_arg :: "('f, 's, 'i) subpaths \<Rightarrow> vertex_ptr \<Rightarrow> ('f, 's, 'i) Vertex option option" where
  "deref_arg m None = Some None"
| "deref_arg m (Some p) = map_option Some (deref m (Some p))"

definition update_vertex ::
  "('f, 's, 'i) subpaths \<Rightarrow> subpath \<Rightarrow> nat \<Rightarrow> (('f, 's, 'i) Vertex \<Rightarrow> ('f, 's, 'i) Vertex)
     \<Rightarrow> ('f, 's, 'i) subpaths option" where
  "update_vertex m a i f =
     (if i < length (vertices m a)
      then Some (set_vertices m a ((vertices m a)[i := f (vertices m a ! i)]))
      else None)"

text \<open>
  The locations that \<^verbatim>\<open>MISWeight\<close> overwrites (a whole vertex, its \<^verbatim>\<open>delta\<close> flag or
  its \<^verbatim>\<open>pdfRev\<close>) and the values stored there.
\<close>

datatype lvalue = VertexAt subpath nat | DeltaOf subpath nat | PdfRevOf subpath nat

datatype ('f, 's, 'i) rvalue = VertexVal "('f, 's, 'i) Vertex" | BoolVal bool | FloatVal 'f

fun load :: "('f, 's, 'i) subpaths \<Rightarrow> lvalue \<Rightarrow> ('f, 's, 'i) rvalue option" where
  "load m (VertexAt a i) = map_option VertexVal (deref m (Some (a, i)))"
| "load m (DeltaOf a i) = map_option (\<lambda>v. BoolVal (delta v)) (deref m (Some (a, i)))"
| "load m (PdfRevOf a i) = map_option (\<lambda>v. FloatVal (pdfRev v)) (deref m (Some (a, i)))"

fun store ::
  "('f, 's, 'i) subpaths \<Rightarrow> lvalue \<Rightarrow> ('f, 's, 'i) rvalue \<Rightarrow> ('f, 's, 'i) subpaths option" where
  "store m (VertexAt a i) (VertexVal v) = update_vertex m a i (\<lambda>_. v)"
| "store m (DeltaOf a i) (BoolVal b) = update_vertex m a i (\<lambda>v. v\<lparr>delta := b\<rparr>)"
| "store m (PdfRevOf a i) (FloatVal x) = update_vertex m a i (\<lambda>v. v\<lparr>pdfRev := x\<rparr>)"
| "store m _ _ = None"

text \<open>
  Modelled from the spec: \<^verbatim>\<open>ScopedAssignment\<close> is declared in
  \<^verbatim>\<open>pbrt/integrators/bdpt.h\<close>, which is not among the sources. It is a scoped,
  reversible overwrite: constructed with a target and a value it saves what the target
  holds and stores the value; without a target it does nothing; when it goes out of
  scope it stores the saved content back. \<open>ScopedAssignment m target v\<close> is the
  construction (and the move into the declared variable), \<open>ScopedAssignment_destroy\<close>
  the destructor.
\<close>

type_synonym ('f, 's, 'i) scoped = "(lvalue \<times> ('f, 's, 'i) rvalue) option"

definition ScopedAssignment ::
  "('f, 's, 'i) subpaths \<Rightarrow> lvalue option \<Rightarrow> ('f, 's, 'i) rvalue
     \<Rightarrow> (('f, 's, 'i) scoped \<times> ('f, 's, 'i) subpaths) option" where
  "ScopedAssignment m target v =
     (case target of
        None \<Rightarrow> Some (None, m)
      | Some l \<Rightarrow> do { old \<leftarrow> load m l; m' \<leftarrow> store m l v; Some (Some (l, old), m') })"

definition ScopedAssignment_destroy ::
  "('f, 's, 'i) scoped \<Rightarrow> ('f, 's, 'i) subpaths \<Rightarrow> ('f, 's, 'i) subpaths option" where
  "ScopedAssignment_destroy a m =
     (case a of None \<Rightarrow> Some m | Some (l, old) \<Rightarrow> store m l old)"

text \<open>
  The \<^verbatim>\<open>ScopedAssignment\<close> objects alive in the body of \<^verbatim>\<open>MISWeight\<close>, newest first,
  together with the subpaths as they are overwritten. \<open>a1\<close> to \<open>a7\<close> are declared and
  assigned in the same order, and C++ destroys locals in the reverse order of their
  declaration: \<open>unwind\<close> runs the destructors from the newest to the oldest.
\<close>

type_synonym ('f, 's, 'i) frame = "('f, 's, 'i) scoped list \<times> ('f, 's, 'i) subpaths"

definition assign ::
  "lvalue option \<Rightarrow> ('f, 's, 'i) rvalue \<Rightarrow> ('f, 's, 'i) frame \<Rightarrow> ('f, 's, 'i) frame option" where
  "assign target v fr =
     (case ScopedAssignment (snd fr) target v of
        None \<Rightarrow> None
      | Some (a, m') \<Rightarrow> Some (a # fst fr, m'))"

primrec unwind ::
  "('f, 's, 'i) scoped list \<Rightarrow> ('f, 's, 'i) subpaths \<Rightarrow> ('f, 's, 'i) subpaths option" where
  "unwind [] m = Some m"
| "unwind (a # as) m =
     (case ScopedAssignment_destroy a m of None \<Rightarrow> None | Some m' \<Rightarrow> unwind as m')"

text \<open>
  The methods of \<^verbatim>\<open>Vertex\<close> that \<^verbatim>\<open>MISWeight\<close> calls, with the scene and the light
  distribution fixed: \<open>Pdf v prev next\<close> is \<^verbatim>\<open>v.Pdf(scene, prev, next)\<close>,
  \<open>PdfLightOrigin v w\<close> is \<^verbatim>\<open>v.PdfLightOrigin(scene, w, lightDistr)\<close>, \<open>PdfLight v w\<close> is
  \<^verbatim>\<open>v.PdfLight(scene, w)\<close>.
\<close>

record ('f, 's, 'i) vertex_env =
  Pdf :: "('f, 's, 'i) Vertex \<Rightarrow> ('f, 's, 'i) Vertex option \<Rightarrow> ('f, 's, 'i) Vertex \<Rightarrow> 'f"
  PdfLightOrigin :: "('f, 's, 'i) Vertex \<Rightarrow> ('f, 's, 'i) Vertex \<Rightarrow> 'f"
  PdfLight :: "('f, 's, 'i) Vertex \<Rightarrow> ('f, 's, 'i) Vertex \<Rightarrow> 'f"
  IsDeltaLight :: "('f, 's, 'i) Vertex \<Rightarrow> bool"

definition remap0 :: "'f::{zero,one} \<Rightarrow> 'f" where
  "remap0 f = (if f \<noteq> 0 then f else 1)"

text \<open>
  The loop of lines 278 to 283 over \<open>i = t - 1, \<dots>, 1\<close> (the second argument is \<open>i\<close>)
  and the loop of lines 287 to 292 over \<open>i = s - 1, \<dots>, 0\<close> (the third argument is
  \<open>i + 1\<close>); the accumulator is \<open>(ri, sumRi)\<close>.
\<close>

fun camera_walk ::
  "('f::{zero,one,plus,times,inverse}, 's, 'i) Vertex list \<Rightarrow> nat \<Rightarrow> 'f \<times> 'f \<Rightarrow> ('f \<times> 'f) option" where
  "camera_walk cv 0 acc = Some acc"
| "camera_walk cv (Suc j) (ri, sumRi) =
     (if Suc j < length cv
      then (let ri = ri * (remap0 (pdfRev (cv ! Suc j)) / remap0 (pdfFwd (cv ! Suc j)));
                sumRi = (if \<not> delta (cv ! Suc j) \<and> \<not> delta (cv ! j) then sumRi + ri
                         else sumRi)
            in camera_walk cv j (ri, sumRi))
      else None)"

fun light_walk ::
  "('f::{zero,one,plus,times,inverse}, 's, 'i, 'z) vertex_env_scheme \<Rightarrow> ('f, 's, 'i) Vertex list \<Rightarrow> nat
     \<Rightarrow> 'f \<times> 'f \<Rightarrow> ('f \<times> 'f) option" where
  "light_walk V lv 0 acc = Some acc"
| "light_walk V lv (Suc i) (ri, sumRi) =
     (if i < length lv
      then (let ri = ri * (remap0 (pdfRev (lv ! i)) / remap0 (pdfFwd (lv ! i)));
                deltaLightvertex = (if 0 < i then delta (lv ! (i - 1))
                                    else IsDeltaLight V (lv ! 0));
                sumRi = (if \<not> delta (lv ! i) \<and> \<not> deltaLightvertex then sumRi + ri
                         else sumRi)
            in light_walk V lv i (ri, sumRi))
      else None)"

text \<open>
  \<^verbatim>\<open>p\<close>, \<^verbatim>\<open>&p->delta\<close> and \<^verbatim>\<open>&p->pdfRev\<close> as assignment targets.
\<close>

definition whole :: "vertex_ptr \<Rightarrow> lvalue option" where
  "whole p = map_option (\<lambda>(a, i). VertexAt a i) p"

definition delta_of :: "vertex_ptr \<Rightarrow> lvalue option" where
  "delta_of p = map_option (\<lambda>(a, i). DeltaOf a i) p"

definition pdfRev_of :: "vertex_ptr \<Rightarrow> lvalue option" where
  "pdfRev_of p = map_option (\<lambda>(a, i). PdfRevOf a i) p"

text \<open>
  Lines 246 to 274: the temporary updates for the strategy \<open>(s, t)\<close>, given the four
  pointers looked up in lines 241 to 244. Each value is computed from the subpaths as
  the earlier updates left them.
\<close>

definition scoped_overwrites ::
  "('f, 's, 'i, 'z) vertex_env_scheme \<Rightarrow> ('f, 's, 'i) Vertex \<Rightarrow> int \<Rightarrow> int
     \<Rightarrow> vertex_ptr \<Rightarrow> vertex_ptr \<Rightarrow> vertex_ptr \<Rightarrow> vertex_ptr
     \<Rightarrow> ('f, 's, 'i) subpaths \<Rightarrow> ('f, 's, 'i) frame option" where
  "scoped_overwrites V sampled s t qs pt qsMinus ptMinus m =
     do {
       f1 \<leftarrow> (if s = 1 then assign (whole qs) (VertexVal sampled) ([], m)
              else if t = 1 then assign (whole pt) (VertexVal sampled) ([], m)
              else Some ([], m));
       f2 \<leftarrow> (if pt \<noteq> None then assign (delta_of pt) (BoolVal False) f1 else Some f1);
       f3 \<leftarrow> (if qs \<noteq> None then assign (delta_of qs) (BoolVal False) f2 else Some f2);
       f4 \<leftarrow> (if pt \<noteq> None
              then do {
                x \<leftarrow> (if 0 < s
                      then do { q \<leftarrow> deref (snd f3) qs;
                                qm \<leftarrow> deref_arg (snd f3) qsMinus;
                                p \<leftarrow> deref (snd f3) pt;
                                Some (Pdf V q qm p) }
                      else do { p \<leftarrow> deref (snd f3) pt;
                                pm \<leftarrow> deref (snd f3) ptMinus;
                                Some (PdfLightOrigin V p pm) });
                assign (pdfRev_of pt) (FloatVal x) f3 }
              else Some f3);
       f5 \<leftarrow> (if ptMinus \<noteq> None
              then do {
                x \<leftarrow> (if 0 < s
                      then do { p \<leftarrow> deref (snd f4) pt;
                                q \<leftarrow> deref_arg (snd f4) qs;
                                pm \<leftarrow> deref (snd f4) ptMinus;
                                Some (Pdf V p q pm) }
                      else do { p \<leftarrow> deref (snd f4) pt;
                                pm \<leftarrow> deref (snd f4) ptMinus;
                                Some (PdfLight V p pm) });
                assign (pdfRev_of ptMinus) (FloatVal x) f4 }
              else Some f4);
       f6 \<leftarrow> (if qs \<noteq> None
              then do {
                x \<leftarrow> do { p \<leftarrow> deref (snd f5) pt;
                          pm \<leftarrow> deref_arg (snd f5) ptMinus;
                          q \<leftarrow> deref (snd f5) qs;
                          Some (Pdf V p pm q) };
                assign (pdfRev_of qs) (FloatVal x) f5 }
              else Some f5);
       f7 \<leftarrow> (if qsMinus \<noteq> None
              then do {
                x \<leftarrow> do { q \<leftarrow> deref (snd f6) qs;
                          p \<leftarrow> deref_arg (snd f6) pt;
                          qm \<leftarrow> deref (snd f6) qsMinus;
                          Some (Pdf V q p qm) };
                assign (pdfRev_of qsMinus) (FloatVal x) f6 }
              else Some f6);
       Some f7
     }"

text \<open>
  \<^verbatim>\<open>MISWeight\<close>. The result is the weight and the subpaths after the destructors have
  run, or \<open>None\<close> where the C++ reads through a null pointer or outside a subpath.
\<close>

definition MISWeight ::
  "('f::{zero,one,plus,times,inverse}, 's, 'i, 'z) vertex_env_scheme \<Rightarrow> ('f, 's, 'i) subpaths
     \<Rightarrow> ('f, 's, 'i) Vertex \<Rightarrow> int \<Rightarrow> int \<Rightarrow> ('f \<times> ('f, 's, 'i) subpaths) option" where
  "MISWeight V m sampled s t =
     (if s + t = 2 then Some (1, m)
      else
        let qs = (if 0 < s then Some (LightSubpath, nat (s - 1)) else None);
            pt = (if 0 < t then Some (CameraSubpath, nat (t - 1)) else None);
            qsMinus = (if 1 < s then Some (LightSubpath, nat (s - 2)) else None);
            ptMinus = (if 1 < t then Some (CameraSubpath, nat (t - 2)) else None)
        in do {
          fr \<leftarrow> scoped_overwrites V sampled s t qs pt qsMinus ptMinus m;
          (ri, sumRi) \<leftarrow> camera_walk (cameraVertices (snd fr)) (nat (t - 1)) (1, 0);
          (ri, sumRi) \<leftarrow> light_walk V (lightVertices (snd fr)) (nat s) (1, sumRi);
          m' \<leftarrow> unwind (fst fr) (snd fr);
          Some (1 / (1 + sumRi), m')
        })"

text \<open>
  Notions for the proofs: a frame \<open>unwinds_to m\<close> when its destructors lead back to
  the subpaths \<open>m\<close>; \<open>shape\<close> is the pair of array lengths; \<open>valid_ptr\<close> is a pointer
  that is null or inside its array; \<open>strategy_in_range\<close> are the strategies that a
  caller may ask for on subpaths of the given lengths.
\<close>

definition unwinds_to :: "('f, 's, 'i) subpaths \<Rightarrow> ('f, 's, 'i) frame \<Rightarrow> bool" where
  "unwinds_to m fr \<longleftrightarrow> unwind (fst fr) (snd fr) = Some m"

definition shape :: "('f, 's, 'i) subpaths \<Rightarrow> nat \<times> nat" where
  "shape m = (length (lightVertices m), length (cameraVertices m))"

fun valid_ptr :: "nat \<times> nat \<Rightarrow> vertex_ptr \<Rightarrow> bool" where
  "valid_ptr sh None = True"
| "valid_ptr sh (Some (LightSubpath, i)) = (i < fst sh)"
| "valid_ptr sh (Some (CameraSubpath, i)) = (i < snd sh)"

definition strategy_in_range :: "('f, 's, 'i) subpaths \<Rightarrow> int \<Rightarrow> int \<Rightarrow> bool" where
  "strategy_in_range m s t \<longleftrightarrow>
     0 \<le> s \<and> 1 \<le> t \<and> 2 \<le> s + t \<and>
     s \<le> int (length (lightVertices m)) \<and> t \<le> int (length (cameraVertices m))"

section \<open>Connecting subpaths (\<^verbatim>\<open>ConnectBDPT\<close>)\<close>

text \<open>
  The collaborators of \<^verbatim>\<open>ConnectBDPT\<close> and \<^verbatim>\<open>G\<close>, with scene, camera and light
  distribution fixed. \<open>black\<close> is \<^verbatim>\<open>Spectrum(0.f)\<close>, \<open>IsBlack L\<close> is \<^verbatim>\<open>!L\<close>, \<open>smult\<close>,
  \<open>sscale\<close> and \<open>sshrink\<close> are \<^verbatim>\<open>Spectrum * Spectrum\<close>, \<^verbatim>\<open>Spectrum * Float\<close> and
  \<^verbatim>\<open>Spectrum / Float\<close>; \<open>default_vertex\<close> is \<^verbatim>\<open>Vertex()\<close>; \<open>bsdf_f v w mode\<close> is
  \<^verbatim>\<open>v.f(w, mode)\<close>; \<open>AbsDot_ns d v\<close> is \<^verbatim>\<open>AbsDot(d, v.ns())\<close>. \<open>Sample_Wi\<close> receives the
  raster position that \<^verbatim>\<open>pRaster\<close> points to and returns the one it leaves there.
  Calls that draw from the sampler return the sampler.
\<close>

record ('f, 's, 'i, 'smp, 'p, 'w, 'vis, 'l) bdpt_env = "('f, 's, 'i) vertex_env" +
  black :: 's
  IsBlack :: "'s \<Rightarrow> bool"
  smult :: "'s \<Rightarrow> 's \<Rightarrow> 's"
  sscale :: "'s \<Rightarrow> 'f \<Rightarrow> 's"
  sshrink :: "'s \<Rightarrow> 'f \<Rightarrow> 's"
  default_vertex :: "('f, 's, 'i) Vertex"
  IsLight :: "('f, 's, 'i) Vertex \<Rightarrow> bool"
  IsConnectible :: "('f, 's, 'i) Vertex \<Rightarrow> bool"
  IsOnSurface :: "('f, 's, 'i) Vertex \<Rightarrow> bool"
  Le :: "('f, 's, 'i) Vertex \<Rightarrow> ('f, 's, 'i) Vertex \<Rightarrow> 's"
  bsdf_f :: "('f, 's, 'i) Vertex \<Rightarrow> ('f, 's, 'i) Vertex \<Rightarrow> TransportMode \<Rightarrow> 's"
  AbsDot_ns :: "'w \<Rightarrow> ('f, 's, 'i) Vertex \<Rightarrow> 'f"
  sampler_Get1D :: "'smp \<Rightarrow> 'f \<times> 'smp"
  sampler_Get2D :: "'smp \<Rightarrow> ('f \<times> 'f) \<times> 'smp"
  Sample_Wi :: "('f, 's, 'i) Vertex \<Rightarrow> 'f \<times> 'f \<Rightarrow> 'p \<Rightarrow> 's \<times> 'w \<times> 'f \<times> 'p \<times> 'vis"
  CreateCamera :: "'vis \<Rightarrow> 's \<Rightarrow> ('f, 's, 'i) Vertex"
  Tr :: "'vis \<Rightarrow> 'smp \<Rightarrow> 's \<times> 'smp"
  lightDistr_Sample :: "'f \<Rightarrow> 'l \<times> 'f"
  Sample_Li :: "'l \<Rightarrow> ('f, 's, 'i) Vertex \<Rightarrow> 'f \<times> 'f \<Rightarrow> 's \<times> 'w \<times> 'f \<times> 'vis"
  CreateLight :: "'vis \<Rightarrow> 'l \<Rightarrow> 's \<Rightarrow> 'f \<Rightarrow> ('f, 's, 'i) Vertex"
  point_difference :: "('f, 's, 'i) Vertex \<Rightarrow> ('f, 's, 'i) Vertex \<Rightarrow> 'w"
  LengthSquared :: "'w \<Rightarrow> 'f"
  vector_scale :: "'w \<Rightarrow> 'f \<Rightarrow> 'w"
  float_sqrt :: "'f \<Rightarrow> 'f"
  VisibilityTester :: "('f, 's, 'i) Vertex \<Rightarrow> ('f, 's, 'i) Vertex \<Rightarrow> 'vis"

definition G ::
  "('f::{one,times,inverse}, 's, 'i, 'smp, 'p, 'w, 'vis, 'l) bdpt_env \<Rightarrow> 'smp
     \<Rightarrow> ('f, 's, 'i) Vertex \<Rightarrow> ('f, 's, 'i) Vertex \<Rightarrow> 's \<times> 'smp" where
  "G V smp v0 v1 =
     (let d = point_difference V v0 v1;
          g = 1 / LengthSquared V d;
          d = vector_scale V d (float_sqrt V g);
          g = (if IsOnSurface V v0 then g * AbsDot_ns V d v0 else g);
          g = (if IsOnSurface V v1 then g * AbsDot_ns V d v1 else g);
          vis = VisibilityTester V v0 v1;
          (tr, smp') = Tr V vis smp
      in (sscale V tr g, smp'))"

definition vertex_at ::
  "('f, 's, 'i) subpaths \<Rightarrow> subpath \<Rightarrow> int \<Rightarrow> ('f, 's, 'i) Vertex option" where
  "vertex_at m a i = (if 0 \<le> i then deref m (Some (a, nat i)) else None)"

text \<open>
  Lines 438 to 500: the contribution \<open>L\<close> of the strategy before it is weighted, the
  vertex \<open>sampled\<close>, the sampler and the raster position.
\<close>

definition connect_strategy ::
  "('f::{zero,one,times,inverse,ord}, 's, 'i, 'smp, 'p, 'w, 'vis, 'l) bdpt_env
     \<Rightarrow> ('f, 's, 'i) subpaths \<Rightarrow> int \<Rightarrow> int \<Rightarrow> 'smp \<Rightarrow> 'p
     \<Rightarrow> ('s \<times> ('f, 's, 'i) Vertex \<times> 'smp \<times> 'p) option" where
  "connect_strategy V m s t smp pRaster =
     (if s = 0 then do {
        pt \<leftarrow> vertex_at m CameraSubpath (t - 1);
        L \<leftarrow> (if IsLight V pt
              then do { prev \<leftarrow> vertex_at m CameraSubpath (t - 2);
                        Some (smult V (Le V pt prev) (beta pt)) }
              else Some (black V));
        Some (L, default_vertex V, smp, pRaster)
      }
      else if t = 1 then do {
        qs \<leftarrow> vertex_at m LightSubpath (s - 1);
        Some (if IsConnectible V qs
              then (let (u, smp) = sampler_Get2D V smp;
                        (Wi, wi, pdf, pRaster, vis) = Sample_Wi V qs u pRaster
                    in if 0 < pdf \<and> \<not> IsBlack V Wi
                       then (let sampled = CreateCamera V vis (sshrink V Wi pdf);
                                 L = smult V (smult V (beta qs) (bsdf_f V qs sampled Importance))
                                       (beta sampled);
                                 L = (if IsOnSurface V qs then sscale V L (AbsDot_ns V wi qs)
                                      else L);
                                 (L, smp) = (if \<not> IsBlack V L
                                             then (let (tr, smp) = Tr V vis smp
                                                   in (smult V L tr, smp))
                                             else (L, smp))
                             in (L, sampled, smp, pRaster))
                       else (black V, default_vertex V, smp, pRaster))
              else (black V, default_vertex V, smp, pRaster))
      }
      else if s = 1 then do {
        pt \<leftarrow> vertex_at m CameraSubpath (t - 1);
        Some (if IsConnectible V pt
              then (let (u1, smp) = sampler_Get1D V smp;
                        (light, lightPdf) = lightDistr_Sample V u1;
                        (u2, smp) = sampler_Get2D V smp;
                        (lightWeight, wi, pdf, vis) = Sample_Li V light pt u2
                    in if 0 < pdf \<and> \<not> IsBlack V lightWeight
                       then (let sampled = CreateLight V vis light
                                             (sshrink V lightWeight (pdf * lightPdf)) 0;
                                 sampled = sampled\<lparr>pdfFwd := PdfLightOrigin V sampled pt\<rparr>;
                                 L = smult V (smult V (beta pt) (bsdf_f V pt sampled Radiance))
                                       (beta sampled);
                                 L = (if IsOnSurface V pt then sscale V L (AbsDot_ns V wi pt)
                                      else L);
                                 (L, smp) = (if \<not> IsBlack V L
                                             then (let (tr, smp) = Tr V vis smp
                                                   in (smult V L tr, smp))
                                             else (L, smp))
                             in (L, sampled, smp, pRaster))
                       else (black V, default_vertex V, smp, pRaster))
              else (black V, default_vertex V, smp, pRaster))
      }
      else do {
        qs \<leftarrow> vertex_at m LightSubpath (s - 1);
        pt \<leftarrow> vertex_at m CameraSubpath (t - 1);
        Some (if IsConnectible V qs \<and> IsConnectible V pt
              then (let L = smult V (smult V (smult V (beta qs) (bsdf_f V qs pt Importance))
                                       (bsdf_f V pt qs Radiance)) (beta pt);
                        (L, smp) = (if \<not> IsBlack V L
                                    then (let (g, smp) = G V smp qs pt in (smult V L g, smp))
                                    else (L, smp))
                    in (L, default_vertex V, smp, pRaster))
              else (black V, default_vertex V, smp, pRaster))
      })"

text \<open>
  \<^verbatim>\<open>ConnectBDPT\<close>. \<open>misWeightPtr\<close> is \<open>None\<close> for a null pointer and otherwise holds
  what the pointer points to; \<open>misWeight_after\<close> is the same after the call.
  \<open>MISWeight_calls\<close> counts the calls of \<^verbatim>\<open>MISWeight\<close>; the counters of \<open>path_stats\<close>
  are the statistics \<^verbatim>\<open>totalPaths\<close> and \<^verbatim>\<open>zeroRadiancePaths\<close>.
\<close>

record path_stats =
  totalPaths :: nat
  zeroRadiancePaths :: nat

record ('f, 's, 'i, 'smp, 'p) connect_result =
  radiance :: 's
  subpaths_after :: "('f, 's, 'i) subpaths"
  sampler_after :: 'smp
  pRaster_after :: 'p
  misWeight_after :: "'f option"
  stats_after :: path_stats
  MISWeight_calls :: nat

definition ConnectBDPT ::
  "('f::{zero,one,plus,times,inverse,ord}, 's, 'i, 'smp, 'p, 'w, 'vis, 'l) bdpt_env
     \<Rightarrow> ('f, 's, 'i) subpaths \<Rightarrow> int \<Rightarrow> int \<Rightarrow> 'smp \<Rightarrow> 'p \<Rightarrow> 'f option \<Rightarrow> path_stats
     \<Rightarrow> ('f, 's, 'i, 'smp, 'p) connect_result option" where
  "ConnectBDPT V m s t smp pRaster misWeightPtr stats =
     do {
       invalid \<leftarrow> (if 1 < t \<and> s \<noteq> 0
                   then map_option (\<lambda>v. vtype v = Light) (vertex_at m CameraSubpath (t - 1))
                   else Some False);
       if invalid
       then Some \<lparr>radiance = black V, subpaths_after = m, sampler_after = smp,
                  pRaster_after = pRaster, misWeight_after = misWeightPtr,
                  stats_after = stats, MISWeight_calls = 0\<rparr>
       else do {
         (L, sampled, smp, pRaster) \<leftarrow> connect_strategy V m s t smp pRaster;
         let stats = stats\<lparr>totalPaths := totalPaths stats + 1\<rparr>;
         let stats = (if IsBlack V L
                      then stats\<lparr>zeroRadiancePaths := zeroRadiancePaths stats + 1\<rparr>
                      else stats);
         (misWeight, m, calls) \<leftarrow>
            (if \<not> IsBlack V L
             then map_option (\<lambda>(w, m'). (w, m', 1)) (MISWeight V m sampled s t)
             else Some (0, m, 0));
         Some \<lparr>radiance = sscale V L misWeight, subpaths_after = m, sampler_after = smp,
                pRaster_after = pRaster,
                misWeight_after = (case misWeightPtr of None \<Rightarrow> None | Some _ \<Rightarrow> Some misWeight),
                stats_after = stats, MISWeight_calls = calls\<rparr>
       }
     }"

section \<open>Debug buffers and strategy enumeration (\<^verbatim>\<open>BDPTIntegrator::Render\<close>)\<close>

text \<open>C++ integer division truncates toward zero: \<open>sdiv\<close>.\<close>

definition BufferIndex :: "int \<Rightarrow> int \<Rightarrow> int" where
  "BufferIndex s t = (let above = s + t - 2 in s + (above * (5 + above)) sdiv 2)"



text \<open>
  The pairs \<open>(s, t)\<close> that pass the guard of lines 372 to 374 in the loops of lines
  369 and 370, in the order of the loops.
\<close>

definition sample_strategies :: "int \<Rightarrow> int \<Rightarrow> int \<Rightarrow> (int \<times> int) list" where
  "sample_strategies nCamera nLight maxDepth =
     concat (map (\<lambda>t.
       concat (map (\<lambda>s. let depth = t + s - 2 in
                          if (s = 1 \<and> t = 1) \<or> depth < 0 \<or> depth > maxDepth then []
                          else [(s, t)])
                   [0..nLight]))
       [1..nCamera])"


definition strategy_ok :: "int \<Rightarrow> int \<times> int \<Rightarrow> bool" where
  "strategy_ok maxDepth =
     (\<lambda>(s, t). 0 \<le> s + t - 2 \<and> s + t - 2 \<le> maxDepth \<and> 0 \<le> s \<and> 1 \<le> t \<and> \<not> (s = 1 \<and> t = 1))"


section \<open>One pixel sample of \<^verbatim>\<open>BDPTIntegrator::Render\<close>\<close>

text \<open>
  Lines 367 to 402. \<^verbatim>\<open>ConnectBDPT\<close> is the parameter \<open>connect\<close>: it receives \<open>s\<close>,
  \<open>t\<close>, the contents of \<^verbatim>\<open>pFilmNew\<close> and \<^verbatim>\<open>misWeight\<close> and whatever state it threads
  (sampler, statistics), and returns \<^verbatim>\<open>Lpath\<close> with the new contents of both.
  \<open>film_splats\<close> are the calls of \<^verbatim>\<open>film->AddSplat\<close>, \<open>weight_splats\<close> the calls of
  \<^verbatim>\<open>weightFilms[BufferIndex(s, t)]->AddSplat\<close> with the buffer index, \<open>connect_log\<close>
  records each call of \<open>connect\<close> with its result.
\<close>

record ('s, 'p, 'c) sample_state =
  Lsum :: 's
  film_splats :: "('p \<times> 's) list"
  weight_splats :: "(int \<times> 'p \<times> 's) list"
  connect_log :: "(int \<times> int \<times> 's \<times> 'p) list"
  connect_state :: 'c

definition strategy_body ::
  "('f::zero, 's::{zero,plus}) spectrum_env
     \<Rightarrow> (int \<Rightarrow> int \<Rightarrow> 'p \<Rightarrow> 'f \<Rightarrow> 'c \<Rightarrow> ('s \<times> 'p \<times> 'f) \<times> 'c)
     \<Rightarrow> int \<Rightarrow> bool \<Rightarrow> bool \<Rightarrow> 'p \<Rightarrow> int \<Rightarrow> int
     \<Rightarrow> ('s, 'p, 'c) sample_state \<Rightarrow> ('s, 'p, 'c) sample_state" where
  "strategy_body SP connect maxDepth visualizeStrategies visualizeWeights pFilm t s st =
     (let depth = t + s - 2
      in if (s = 1 \<and> t = 1) \<or> depth < 0 \<or> depth > maxDepth then st
         else
           (let pFilmNew = pFilm;
                misWeight = 0;
                ((Lpath, pFilmNew, misWeight), c) =
                   connect s t pFilmNew misWeight (connect_state st);
                st = st\<lparr>connect_state := c,
                        connect_log := connect_log st @ [(s, t, Lpath, pFilmNew)]\<rparr>;
                st = (if visualizeStrategies \<or> visualizeWeights
                      then (let val = 0;
                                val = (if visualizeStrategies
                                       then (if misWeight = 0 then 0
                                             else shrink SP Lpath misWeight)
                                       else val);
                                val = (if visualizeWeights then Lpath else val)
                            in st\<lparr>weight_splats :=
                                     weight_splats st @ [(BufferIndex s t, pFilmNew, val)]\<rparr>)
                      else st)
            in if t \<noteq> 1 then st\<lparr>Lsum := Lsum st + Lpath\<rparr>
               else st\<lparr>film_splats := AddSplat (film_splats st) pFilmNew Lpath\<rparr>))"

definition connect_strategies ::
  "('f::zero, 's::{zero,plus}) spectrum_env
     \<Rightarrow> (int \<Rightarrow> int \<Rightarrow> 'p \<Rightarrow> 'f \<Rightarrow> 'c \<Rightarrow> ('s \<times> 'p \<times> 'f) \<times> 'c)
     \<Rightarrow> int \<Rightarrow> bool \<Rightarrow> bool \<Rightarrow> 'p \<Rightarrow> int \<Rightarrow> int
     \<Rightarrow> ('s, 'p, 'c) sample_state \<Rightarrow> ('s, 'p, 'c) sample_state" where
  "connect_strategies SP connect maxDepth visualizeStrategies visualizeWeights pFilm
       nCamera nLight st =
     foldl (\<lambda>st t.
              foldl (\<lambda>st s. strategy_body SP connect maxDepth visualizeStrategies
                               visualizeWeights pFilm t s st)
                    st [0..nLight])
           st [1..nCamera]"

text \<open>
  The sample as a whole: \<^verbatim>\<open>L\<close> starts black, the strategies run, and the second
  component is the argument of \<^verbatim>\<open>filmTile->AddSample(pFilm, L)\<close>.
\<close>

definition render_sample ::
  "('f::zero, 's::{zero,plus}) spectrum_env
     \<Rightarrow> (int \<Rightarrow> int \<Rightarrow> 'p \<Rightarrow> 'f \<Rightarrow> 'c \<Rightarrow> ('s \<times> 'p \<times> 'f) \<times> 'c)
     \<Rightarrow> int \<Rightarrow> bool \<Rightarrow> bool \<Rightarrow> 'p \<Rightarrow> int \<Rightarrow> int
     \<Rightarrow> 'c \<Rightarrow> ('p \<times> 's) list \<Rightarrow> (int \<times> 'p \<times> 's) list
     \<Rightarrow> ('s, 'p, 'c) sample_state \<times> ('p \<times> 's)" where
  "render_sample SP connect maxDepth visualizeStrategies visualizeWeights pFilm nCamera nLight
       c fsplats wsplats =
     (let st = connect_strategies SP connect maxDepth visualizeStrategies visualizeWeights
                 pFilm nCamera nLight
                 \<lparr>Lsum = 0, film_splats = fsplats, weight_splats = wsplats,
                  connect_log = [], connect_state = c\<rparr>
      in (st, (pFilm, Lsum st)))"

text \<open>
  What a log of \<open>connect\<close> calls says: its strategies, the splats of its \<open>t = 1\<close>
  entries and the radiances of the others. \<open>accounted st0 ks st\<close>: from \<open>st0\<close> to \<open>st\<close>
  the strategies \<open>ks\<close> were connected, and splats and \<^verbatim>\<open>L\<close> grew accordingly.
  \<open>strategy_guard\<close> is the guard of lines 372 to 374.
\<close>

definition log_strategies :: "(int \<times> int \<times> 's \<times> 'p) list \<Rightarrow> (int \<times> int) list" where
  "log_strategies lg = map (\<lambda>(s, t, Lpath, p). (s, t)) lg"

definition log_splats :: "(int \<times> int \<times> 's \<times> 'p) list \<Rightarrow> ('p \<times> 's) list" where
  "log_splats lg = map (\<lambda>(s, t, Lpath, p). (p, Lpath)) (filter (\<lambda>(s, t, Lpath, p). t = 1) lg)"

definition log_radiances :: "(int \<times> int \<times> 's \<times> 'p) list \<Rightarrow> 's list" where
  "log_radiances lg = map (\<lambda>(s, t, Lpath, p). Lpath) (filter (\<lambda>(s, t, Lpath, p). t \<noteq> 1) lg)"

definition accounted ::
  "('s::plus, 'p, 'c) sample_state \<Rightarrow> (int \<times> int) list \<Rightarrow> ('s, 'p, 'c) sample_state \<Rightarrow> bool" where
  "accounted st0 ks st \<longleftrightarrow>
     (\<exists>new. connect_log st = connect_log st0 @ new \<and>
            log_strategies new = ks \<and>
            film_splats st = film_splats st0 @ log_splats new \<and>
            Lsum st = foldl (+) (Lsum st0) (log_radiances new))"

definition strategy_guard :: "int \<Rightarrow> int \<Rightarrow> int \<Rightarrow> (int \<times> int) list" where
  "strategy_guard maxDepth t s =
     (let depth = t + s - 2 in
      if (s = 1 \<and> t = 1) \<or> depth < 0 \<or> depth > maxDepth then [] else [(s, t)])"

section \<open>A concrete instance\<close>

text \<open>
  A small instance of the parameters over the reals, on which the definitions are
  evaluated: the generator counts its draws and always returns \<open>1/2\<close>, a spectrum is
  one number and is its own luminance.
\<close>

definition demo_env :: "(real, nat) float_env" where
  "demo_env = \<lparr>RNG_seed = nat, UniformFloat = (\<lambda>n. (1 / 2, n + 1)), Sqrt2 = 3 / 2,
      ErfInv = (\<lambda>x. x), std_sqrt = (\<lambda>x. x), std_floor = (\<lambda>x. of_int \<lfloor>x\<rfloor>),
      Float_of_int = of_int\<rparr>"

definition demo_spectrum :: "(real, real) spectrum_env" where
  "demo_spectrum = \<lparr>lum = (\<lambda>x. x), scale = (*), shrink = (/)\<rparr>"

definition demo_chain :: "(real, real, nat, nat) chain_state" where
  "demo_chain = \<lparr>pCurrent = 3, LCurrent = 1 / 2,
      sampler = MLTSampler_new demo_env 100 0 (1 / 100) (3 / 10) 3 (0, 0),
      chain_rng = 0, film = [], acceptedMutations = 0, totalMutations = 0\<rparr>"

definition demo_L :: "(real, nat) MLTSampler \<Rightarrow> int \<Rightarrow> real \<times> nat \<times> (real, nat) MLTSampler" where
  "demo_L S depth = (1 / 4, 7, S)"


definition demo_bootstrap :: "real bootstrap_state" where
  "demo_bootstrap = \<lparr>bootstrapWeights = [0, 0, 0, 0], progressUpdates = 0\<rparr>"

definition demo_vertex_env :: "(real, real, unit) vertex_env" where
  "demo_vertex_env = \<lparr>Pdf = (\<lambda>v prev nxt. 2), PdfLightOrigin = (\<lambda>v w. 3),
      PdfLight = (\<lambda>v w. 5), IsDeltaLight = (\<lambda>v. False)\<rparr>"

definition demo_vertex :: "VertexType \<Rightarrow> bool \<Rightarrow> real \<Rightarrow> real \<Rightarrow> (real, real, unit) Vertex" where
  "demo_vertex ty d fwd bwd =
     \<lparr>vtype = ty, beta = 1, interaction = (), delta = d, pdfFwd = fwd, pdfRev = bwd\<rparr>"

definition demo_paths :: "(real, real, unit) subpaths" where
  "demo_paths =
     \<lparr>lightVertices = [demo_vertex Light False 1 1, demo_vertex Surface True 4 1],
      cameraVertices = [demo_vertex Camera False 1 1, demo_vertex Surface True 1 1,
                        demo_vertex Surface False 1 7]\<rparr>"

definition demo_bdpt_env :: "(real, real, unit, nat, nat, unit, unit, unit) bdpt_env" where
  "demo_bdpt_env =
     \<lparr>Pdf = (\<lambda>v prev nxt. 2), PdfLightOrigin = (\<lambda>v w. 3), PdfLight = (\<lambda>v w. 5),
      IsDeltaLight = (\<lambda>v. False),
      black = 0, IsBlack = (\<lambda>L. L = 0), smult = (*), sscale = (*), sshrink = (/),
      default_vertex = demo_vertex Surface False 0 0,
      IsLight = (\<lambda>v. vtype v = Light), IsConnectible = (\<lambda>v. \<not> delta v),
      IsOnSurface = (\<lambda>v. vtype v = Surface),
      Le = (\<lambda>v prev. 1), bsdf_f = (\<lambda>v nxt mode. 1), AbsDot_ns = (\<lambda>w v. 1),
      sampler_Get1D = (\<lambda>n. (1 / 2, n + 1)), sampler_Get2D = (\<lambda>n. ((1 / 2, 1 / 2), n + 2)),
      Sample_Wi = (\<lambda>v u p. (1, (), 1, p + 1, ())), CreateCamera = (\<lambda>vis b. demo_vertex Camera False 1 1),
      Tr = (\<lambda>vis n. (1, n)), lightDistr_Sample = (\<lambda>u. ((), 1)),
      Sample_Li = (\<lambda>l v u. (1, (), 1, ())), CreateLight = (\<lambda>vis l b pdf. demo_vertex Light False pdf 0),
      point_difference = (\<lambda>v w. ()), LengthSquared = (\<lambda>d. 1), vector_scale = (\<lambda>d x. d),
      float_sqrt = (\<lambda>x. x), VisibilityTester = (\<lambda>v w. ())\<rparr>"

definition demo_stats :: path_stats where
  "demo_stats = \<lparr>totalPaths = 0, zeroRadiancePaths = 0\<rparr>"

definition demo_connect :: "int \<Rightarrow> int \<Rightarrow> nat \<Rightarrow> real \<Rightarrow> unit \<Rightarrow> (real \<times> nat \<times> real) \<times> unit" where
  "demo_connect s t p w c = ((of_int (s + t), p + 1, 1 / 2), c)"


section \<open>Buffer indices are in bounds and distinct\<close>






text \<open>
  The factory \<^verbatim>\<open>CreateBDPTIntegrator\<close> limits \<open>maxDepth\<close> to 5 whenever the debug
  buffers are in use; up to 40000 the product in \<open>bufferCount\<close> stays below \<open>2^31\<close>, so
  the 32-bit \<^verbatim>\<open>int\<close> of the source computes the value of the model.
\<close>

lemma bufferCount_fits_int32:
  assumes "0 \<le> maxDepth" "maxDepth \<le> (40000::int)"
  shows "0 \<le> (1 + maxDepth) * (6 + maxDepth)" "(1 + maxDepth) * (6 + maxDepth) < 2 ^ 31"
proof -
  show "0 \<le> (1 + maxDepth) * (6 + maxDepth)" using assms by simp
  have "(1 + maxDepth) * (6 + maxDepth) \<le> 40001 * 40006"
    using assms by (intro mult_mono) auto
  then show "(1 + maxDepth) * (6 + maxDepth) < 2 ^ 31" by simp
qed



lemma in_sample_strategies:
  "(s, t) \<in> set (sample_strategies nCamera nLight maxDepth) \<longleftrightarrow>
     (\<exists>t'\<in>{1..nCamera}. \<exists>s'\<in>{0..nLight}.
        (s, t) = (s', t') \<and>
        \<not> ((s' = 1 \<and> t' = 1) \<or> t' + s' - 2 < 0 \<or> t' + s' - 2 > maxDepth))"
  unfolding sample_strategies_def Let_def set_concat set_map set_upto
  by (auto split: if_splits)

lemma sample_strategies_ok:
  "(s, t) \<in> set (sample_strategies nCamera nLight maxDepth) \<longleftrightarrow>
     strategy_ok maxDepth (s, t) \<and> s \<le> nLight \<and> t \<le> nCamera"
  unfolding in_sample_strategies by (auto simp: strategy_ok_def)






section \<open>The bootstrap loop never reports progress\<close>

lemma progress_due_never: "0 \<le> i \<Longrightarrow> \<not> progress_due i"
  by (simp add: progress_due_def)

lemma bootstrap_sample_Some:
  assumes "0 \<le> i * (maxDepth + 1) + depth" "i * (maxDepth + 1) + depth < int (length (bootstrapWeights B))"
  shows "bootstrap_sample weight maxDepth i depth B =
    Some (B\<lparr>bootstrapWeights := (bootstrapWeights B)[nat (i * (maxDepth + 1) + depth) := weight (i * (maxDepth + 1) + depth) depth]\<rparr>)"
  using assms by (simp add: bootstrap_sample_def vector_store_def Let_def)

lemma depth_loop:
  assumes "0 \<le> i" "0 \<le> lo" "(i + 1) * (maxDepth + 1) \<le> int (length (bootstrapWeights B))"
  shows "\<exists>ws. for_each (bootstrap_sample weight maxDepth i) [lo..maxDepth] B = Some (B\<lparr>bootstrapWeights := ws\<rparr>)
      \<and> length ws = length (bootstrapWeights B)
      \<and> (\<forall>k < length ws. ws ! k =
            (if int k \<in> {i * (maxDepth + 1) + lo .. i * (maxDepth + 1) + maxDepth}
             then weight (int k) (int k - i * (maxDepth + 1)) else bootstrapWeights B ! k))"
  using assms
proof (induction lo maxDepth arbitrary: B rule: upto.induct)
  case (1 lo hi)
  show ?case
  proof (cases "lo \<le> hi")
    case False
    then show ?thesis
      by (intro exI [of _ "bootstrapWeights B"]) (simp add: upto.simps)
  next
    case True
    let ?idx = "i * (hi + 1) + lo"
    have idx: "0 \<le> ?idx" "?idx < int (length (bootstrapWeights B))"
    proof -
      show "0 \<le> ?idx" using 1(2,3) True by simp
      have "?idx < i * (hi + 1) + (hi + 1)" using True by simp
      also have "\<dots> = (i + 1) * (hi + 1)" by (simp add: algebra_simps)
      finally show "?idx < int (length (bootstrapWeights B))" using 1(4) by simp
    qed
    let ?B1 = "B\<lparr>bootstrapWeights := (bootstrapWeights B)[nat ?idx := weight ?idx lo]\<rparr>"
    have step: "bootstrap_sample weight hi i lo B = Some ?B1"
      using bootstrap_sample_Some [OF idx] .
    have "\<exists>ws. for_each (bootstrap_sample weight hi i) [lo + 1..hi] ?B1 = Some (?B1\<lparr>bootstrapWeights := ws\<rparr>)
      \<and> length ws = length (bootstrapWeights ?B1)
      \<and> (\<forall>k < length ws. ws ! k =
            (if int k \<in> {i * (hi + 1) + (lo + 1) .. i * (hi + 1) + hi}
             then weight (int k) (int k - i * (hi + 1)) else bootstrapWeights ?B1 ! k))"
      using 1(1) [OF True, of ?B1] 1(2,3,4) by simp
    then obtain ws where ws: "for_each (bootstrap_sample weight hi i) [lo + 1..hi] ?B1 = Some (?B1\<lparr>bootstrapWeights := ws\<rparr>)"
      "length ws = length (bootstrapWeights B)"
      "\<forall>k < length ws. ws ! k =
            (if int k \<in> {i * (hi + 1) + (lo + 1) .. i * (hi + 1) + hi}
             then weight (int k) (int k - i * (hi + 1)) else bootstrapWeights ?B1 ! k)"
      by auto
    have "for_each (bootstrap_sample weight hi i) [lo..hi] B = Some (B\<lparr>bootstrapWeights := ws\<rparr>)"
      using True step ws(1) by (simp add: upto.simps [of lo hi])
    moreover have "\<forall>k < length ws. ws ! k =
            (if int k \<in> {i * (hi + 1) + lo .. i * (hi + 1) + hi}
             then weight (int k) (int k - i * (hi + 1)) else bootstrapWeights B ! k)"
    proof (intro allI impI)
      fix k assume k: "k < length ws"
      show "ws ! k = (if int k \<in> {i * (hi + 1) + lo .. i * (hi + 1) + hi}
             then weight (int k) (int k - i * (hi + 1)) else bootstrapWeights B ! k)"
      proof (cases "int k = ?idx")
        case True
        then have "k = nat ?idx" by simp
        with ws(3) k ws(2) True \<open>lo \<le> hi\<close> show ?thesis by simp
      next
        case False
        then have "k \<noteq> nat ?idx" using idx by auto
        with ws(3) k False show ?thesis by auto
      qed
    qed
    ultimately show ?thesis using ws(2) by blast
  qed
qed

lemma candidate_loop:
  assumes "0 \<le> i" "0 \<le> maxDepth" "(i + 1) * (maxDepth + 1) \<le> int (length (bootstrapWeights B))"
  shows "\<exists>ws. bootstrap_candidate weight maxDepth i B = Some (B\<lparr>bootstrapWeights := ws\<rparr>)
      \<and> length ws = length (bootstrapWeights B)
      \<and> (\<forall>k < length ws. ws ! k =
            (if i * (maxDepth + 1) \<le> int k \<and> int k < (i + 1) * (maxDepth + 1)
             then weight (int k) (int k mod (maxDepth + 1)) else bootstrapWeights B ! k))"
proof -
  from depth_loop [OF assms(1) _ assms(3), of 0 weight]
  obtain ws where ws: "for_each (bootstrap_sample weight maxDepth i) [0..maxDepth] B = Some (B\<lparr>bootstrapWeights := ws\<rparr>)"
      "length ws = length (bootstrapWeights B)"
      "\<forall>k < length ws. ws ! k =
            (if int k \<in> {i * (maxDepth + 1) + 0 .. i * (maxDepth + 1) + maxDepth}
             then weight (int k) (int k - i * (maxDepth + 1)) else bootstrapWeights B ! k)"
    by auto
  have "bootstrap_candidate weight maxDepth i B = Some (B\<lparr>bootstrapWeights := ws\<rparr>)"
    using ws(1) progress_due_never [OF assms(1)] by (simp add: bootstrap_candidate_def)
  moreover have "\<forall>k < length ws. ws ! k =
            (if i * (maxDepth + 1) \<le> int k \<and> int k < (i + 1) * (maxDepth + 1)
             then weight (int k) (int k mod (maxDepth + 1)) else bootstrapWeights B ! k)"
  proof (intro allI impI)
    fix k assume k: "k < length ws"
    have rng: "int k \<in> {i * (maxDepth + 1) + 0 .. i * (maxDepth + 1) + maxDepth}
       \<longleftrightarrow> i * (maxDepth + 1) \<le> int k \<and> int k < (i + 1) * (maxDepth + 1)"
      by (auto simp: algebra_simps)
    have md: "int k mod (maxDepth + 1) = int k - i * (maxDepth + 1)"
      if "i * (maxDepth + 1) \<le> int k" "int k < (i + 1) * (maxDepth + 1)"
    proof -
      have "int k = (int k - i * (maxDepth + 1)) + i * (maxDepth + 1)" by simp
      moreover have "0 \<le> int k - i * (maxDepth + 1)" "int k - i * (maxDepth + 1) < maxDepth + 1"
        using that by (auto simp: algebra_simps)
      ultimately show ?thesis
        by (metis mod_mult_self1 mod_pos_pos_trivial)
    qed
    show "ws ! k = (if i * (maxDepth + 1) \<le> int k \<and> int k < (i + 1) * (maxDepth + 1)
             then weight (int k) (int k mod (maxDepth + 1)) else bootstrapWeights B ! k)"
      using ws(3) k rng md by auto
  qed
  ultimately show ?thesis using ws(2) by blast
qed

lemma chunk_loop:
  assumes "0 \<le> start" "0 \<le> maxDepth" "fin * (maxDepth + 1) \<le> int (length (bootstrapWeights B))"
  shows "\<exists>ws. for_each (bootstrap_candidate weight maxDepth) [start..fin - 1] B = Some (B\<lparr>bootstrapWeights := ws\<rparr>)
      \<and> length ws = length (bootstrapWeights B)
      \<and> (\<forall>k < length ws. ws ! k =
            (if start * (maxDepth + 1) \<le> int k \<and> int k < fin * (maxDepth + 1)
             then weight (int k) (int k mod (maxDepth + 1)) else bootstrapWeights B ! k))"
  using assms
proof (induction start "fin - 1" arbitrary: B rule: upto.induct)
  case (1 i)
  show ?case
  proof (cases "i \<le> fin - 1")
    case False
    then have "fin * (maxDepth + 1) \<le> i * (maxDepth + 1)"
      using 1(3) by (intro mult_right_mono) auto
    with False show ?thesis
      by (intro exI [of _ "bootstrapWeights B"]) (auto simp: upto.simps)
  next
    case True
    have le: "(i + 1) * (maxDepth + 1) \<le> fin * (maxDepth + 1)"
      using True 1(3) by (intro mult_right_mono) auto
    from candidate_loop [OF 1(2,3), of B weight] le 1(4)
    obtain w1 where w1: "bootstrap_candidate weight maxDepth i B = Some (B\<lparr>bootstrapWeights := w1\<rparr>)"
      "length w1 = length (bootstrapWeights B)"
      "\<forall>k < length w1. w1 ! k =
            (if i * (maxDepth + 1) \<le> int k \<and> int k < (i + 1) * (maxDepth + 1)
             then weight (int k) (int k mod (maxDepth + 1)) else bootstrapWeights B ! k)"
      by auto
    let ?B1 = "B\<lparr>bootstrapWeights := w1\<rparr>"
    from 1(1) [OF True, of ?B1] 1(2,3,4) w1(2)
    obtain ws where ws: "for_each (bootstrap_candidate weight maxDepth) [i + 1..fin - 1] ?B1 = Some (?B1\<lparr>bootstrapWeights := ws\<rparr>)"
      "length ws = length w1"
      "\<forall>k < length ws. ws ! k =
            (if (i + 1) * (maxDepth + 1) \<le> int k \<and> int k < fin * (maxDepth + 1)
             then weight (int k) (int k mod (maxDepth + 1)) else w1 ! k)"
      by auto
    have "for_each (bootstrap_candidate weight maxDepth) [i..fin - 1] B = Some (B\<lparr>bootstrapWeights := ws\<rparr>)"
      using True w1(1) ws(1) by (simp add: upto.simps [of i "fin - 1"])
    moreover have "\<forall>k < length ws. ws ! k =
            (if i * (maxDepth + 1) \<le> int k \<and> int k < fin * (maxDepth + 1)
             then weight (int k) (int k mod (maxDepth + 1)) else bootstrapWeights B ! k)"
    proof (intro allI impI)
      fix k assume k: "k < length ws"
      have "i * (maxDepth + 1) \<le> (i + 1) * (maxDepth + 1)"
        using 1(3) by (intro mult_right_mono) auto
      with ws(3) w1(3) k ws(2) le
      show "ws ! k = (if i * (maxDepth + 1) \<le> int k \<and> int k < fin * (maxDepth + 1)
             then weight (int k) (int k mod (maxDepth + 1)) else bootstrapWeights B ! k)"
        by auto
    qed
    ultimately show ?thesis using ws(2) w1(2) by auto
  qed
qed

text \<open>
  C9. The progress condition of the bootstrap loop is \<open>i + (1 mod 256) = 0\<close>, which is
  false for every candidate index \<open>i \<ge> 0\<close>: a chunk of the loop never calls
  \<^verbatim>\<open>progress.Update()\<close>. The weights are not affected: the chunk \<open>[start, fin)\<close>
  returns, and it has stored into every slot \<open>k\<close> of its candidates the luminance of
  the sample with seed \<open>k\<close> and depth \<open>k mod (maxDepth + 1)\<close>, leaving the other slots as
  they were.
\<close>

theorem bootstrap_progress_never_fires:
  assumes "0 \<le> start" "0 \<le> maxDepth"
    and "fin * (maxDepth + 1) \<le> int (length (bootstrapWeights B))"
  shows "(\<forall>i\<ge>0. \<not> progress_due i) \<and>
         (\<exists>B'. bootstrap_chunk E SP Lfun mutationsPerPixel sig lsp cursor maxDepth start fin B
                  = Some B'
            \<and> progressUpdates B' = progressUpdates B
            \<and> length (bootstrapWeights B') = length (bootstrapWeights B)
            \<and> (\<forall>k < length (bootstrapWeights B'). bootstrapWeights B' ! k =
                 (if start * (maxDepth + 1) \<le> int k \<and> int k < fin * (maxDepth + 1)
                  then bootstrap_weight E SP Lfun mutationsPerPixel sig lsp cursor (int k)
                         (int k mod (maxDepth + 1))
                  else bootstrapWeights B ! k)))"
proof -
  have "\<forall>i\<ge>0. \<not> progress_due i"
    using progress_due_never by auto
  moreover from chunk_loop [OF assms,
      of "bootstrap_weight E SP Lfun mutationsPerPixel sig lsp cursor"]
  obtain ws where ws:
    "bootstrap_chunk E SP Lfun mutationsPerPixel sig lsp cursor maxDepth start fin B
       = Some (B\<lparr>bootstrapWeights := ws\<rparr>)"
    "length ws = length (bootstrapWeights B)"
    "\<forall>k < length ws. ws ! k =
       (if start * (maxDepth + 1) \<le> int k \<and> int k < fin * (maxDepth + 1)
        then bootstrap_weight E SP Lfun mutationsPerPixel sig lsp cursor (int k)
               (int k mod (maxDepth + 1))
        else bootstrapWeights B ! k)"
    unfolding bootstrap_chunk_def by blast
  ultimately show ?thesis by simp
qed

theorem bootstrap_progress_never_fires_witness:
  "(0::int) \<le> 0 \<and> (0::int) \<le> 1 \<and> 2 * (1 + 1) \<le> int (length (bootstrapWeights demo_bootstrap))
   \<and> \<not> progress_due 255
   \<and> (\<exists>B'. bootstrap_chunk demo_env demo_spectrum demo_L 100 (1 / 100) (3 / 10) (0, 0) 1 0 2
                 demo_bootstrap = Some B'
          \<and> progressUpdates B' = 0 \<and> bootstrapWeights B' = [1 / 4, 1 / 4, 1 / 4, 1 / 4])"
proof -
  have h: "(0::int) \<le> 0" "(0::int) \<le> 1"
    "2 * (1 + 1) \<le> int (length (bootstrapWeights demo_bootstrap))"
    by (simp_all add: demo_bootstrap_def)
  from bootstrap_progress_never_fires [OF h, of demo_env demo_spectrum demo_L 100 "1 / 100"
      "3 / 10" "(0, 0)"]
  obtain B' where p: "\<not> progress_due 255"
    and r: "bootstrap_chunk demo_env demo_spectrum demo_L 100 (1 / 100) (3 / 10) (0, 0) 1 0 2
              demo_bootstrap = Some B'"
      "progressUpdates B' = progressUpdates demo_bootstrap"
      "length (bootstrapWeights B') = length (bootstrapWeights demo_bootstrap)"
    and w: "\<forall>k < length (bootstrapWeights B'). bootstrapWeights B' ! k =
             (if 0 * (1 + 1) \<le> int k \<and> int k < 2 * (1 + 1)
              then bootstrap_weight demo_env demo_spectrum demo_L 100 (1 / 100) (3 / 10) (0, 0)
                     (int k) (int k mod (1 + 1))
              else bootstrapWeights demo_bootstrap ! k)"
    by auto
  have len: "length (bootstrapWeights B') = 4" using r(3) by (simp add: demo_bootstrap_def)
  have "bootstrapWeights B' ! k = 1 / 4" if "k < 4" for k
    using w len that
    by (simp add: bootstrap_weight_def demo_L_def demo_spectrum_def)
  then have "bootstrapWeights B' = [1 / 4, 1 / 4, 1 / 4, 1 / 4]"
    using len by (intro nth_equalityI) (auto simp: nth_Cons' )
  with p r h show ?thesis by (auto simp: demo_bootstrap_def)
qed


section \<open>Acceptance probability and two-sided splatting\<close>

lemma std_min_linorder: "std_min a b = min a (b::'a::linorder)"
  by (auto simp: std_min_def min_def)

text \<open>
  C2. In one step of a Markov chain with current radiance \<open>LCurrent\<close> and proposed
  radiance \<open>LProposed\<close>, the acceptance probability is
  \<open>std_min 1 (lum LProposed / lum LCurrent)\<close>; the step splats the proposed sample at
  its raster position with \<open>LProposed * accept / lum LProposed\<close> when \<open>0 < accept\<close>, and
  then the current sample at its raster position with
  \<open>LCurrent * (1 - accept) / lum LCurrent\<close>; nothing else is splatted. The proposal is
  accepted when the uniform draw is below \<open>accept\<close> and rejected otherwise.
\<close>

theorem chain_step_two_sided_splat:
  assumes proposal: "Lfun (StartIteration E (sampler C)) depth = (LProposed, pProposed, S2)"
    and acc: "accept = std_min 1 (lum SP LProposed / lum SP (LCurrent C))"
    and draw: "UniformFloat E (chain_rng C) = (u, r)"
  shows "film (chain_step E SP Lfun depth C) =
           film C
           @ (if 0 < accept
              then [(pProposed, shrink SP (scale SP LProposed accept) (lum SP LProposed))]
              else [])
           @ [(pCurrent C,
               shrink SP (scale SP (LCurrent C) (1 - accept)) (lum SP (LCurrent C)))]
         \<and> sampler (chain_step E SP Lfun depth C) =
             (if u < accept then Accept S2 else Reject S2)
         \<and> (pCurrent (chain_step E SP Lfun depth C), LCurrent (chain_step E SP Lfun depth C)) =
             (if u < accept then (pProposed, LProposed) else (pCurrent C, LCurrent C))"
  using assms by (simp add: chain_step_def Let_def AddSplat_def)

theorem chain_step_two_sided_splat_witness:
  "demo_L (StartIteration demo_env (sampler demo_chain)) 0 =
      (1 / 4, 7, StartIteration demo_env (sampler demo_chain))
   \<and> (1 / 2 :: real) =
      std_min 1 (lum demo_spectrum (1 / 4) / lum demo_spectrum (LCurrent demo_chain))
   \<and> UniformFloat demo_env (chain_rng demo_chain) = (1 / 2, 1)
   \<and> film (chain_step demo_env demo_spectrum demo_L 0 demo_chain) = [(7, 1 / 2), (3, 1 / 2)]"
proof -
  have h1: "demo_L (StartIteration demo_env (sampler demo_chain)) 0 =
      (1 / 4, 7, StartIteration demo_env (sampler demo_chain))"
    by (simp add: demo_L_def)
  have h2: "(1 / 2 :: real) =
      std_min 1 (lum demo_spectrum (1 / 4) / lum demo_spectrum (LCurrent demo_chain))"
    by (simp add: std_min_def demo_spectrum_def demo_chain_def)
  have h3: "UniformFloat demo_env (chain_rng demo_chain) = (1 / 2, 1)"
    by (simp add: demo_env_def demo_chain_def)
  have "film (chain_step demo_env demo_spectrum demo_L 0 demo_chain) = [(7, 1 / 2), (3, 1 / 2)]"
    using chain_step_two_sided_splat
      [where Lfun = demo_L and E = demo_env and C = demo_chain and SP = demo_spectrum,
       OF h1 h2 h3]
    by (simp add: demo_spectrum_def demo_chain_def)
  with h1 h2 h3 show ?thesis by blast
qed

section \<open>Rejection restores the sampler\<close>

lemma resize_length [simp]: "length (resize xs n) = n"
  by (simp add: resize_def)

lemma resize_nth:
  "j < n \<Longrightarrow> resize xs n ! j = (if j < length xs then xs ! j else PrimarySample_default)"
  by (auto simp: resize_def nth_append)

lemma EnsureReady_fields [simp]:
  "currentIteration (EnsureReady E i S) = currentIteration S"
  "lastLargeStepIteration (EnsureReady E i S) = lastLargeStepIteration S"
  "largeStep (EnsureReady E i S) = largeStep S"
  "streamIndex (EnsureReady E i S) = streamIndex S"
  "streamCount (EnsureReady E i S) = streamCount S"
  "sampleIndex (EnsureReady E i S) = sampleIndex S"
  "sigma (EnsureReady E i S) = sigma S"
  "largeStepProbability (EnsureReady E i S) = largeStepProbability S"
  "samplesPerPixel (EnsureReady E i S) = samplesPerPixel S"
  by (simp_all add: EnsureReady_def Let_def split: prod.splits)

lemma EnsureReady_length:
  "length (X (EnsureReady E i S)) = max (length (X S)) (i + 1)"
  by (simp add: EnsureReady_def Let_def split: prod.splits)

lemma EnsureReady_other:
  assumes "j \<noteq> i" "j < length (X (EnsureReady E i S))"
  shows "X (EnsureReady E i S) ! j =
           (if j < length (X S) then X S ! j else PrimarySample_default)"
  using assms
  by (auto simp: EnsureReady_def Let_def resize_nth split: prod.splits if_splits)

lemma EnsureReady_at:
  "lastModificationIteration (X (EnsureReady E i S) ! i) = currentIteration S"
  "lastLargeStepIteration S \<le> lastModificationIteration (coord_before S i) \<Longrightarrow>
     valueBackup (X (EnsureReady E i S) ! i) = sample_value (coord_before S i) \<and>
     modifyBackup (X (EnsureReady E i S) ! i) = lastModificationIteration (coord_before S i)"
  "lastModificationIteration (coord_before S i) < lastLargeStepIteration S  \<Longrightarrow>
     valueBackup (X (EnsureReady E i S) ! i) = fst (UniformFloat E (rng S)) \<and>
     modifyBackup (X (EnsureReady E i S) ! i) = lastLargeStepIteration S"
  by (auto simp: EnsureReady_def Let_def resize_nth coord_before_def Backup_def split: prod.splits if_splits)

lemma mid_iteration_start: "mid_iteration S0 {} (StartIteration E S0)"
  by (simp add: mid_iteration_def StartIteration_def coord_before_def split: prod.splits)

lemma mid_iteration_cursor:
  "mid_iteration S0 T S \<Longrightarrow> mid_iteration S0 T (S\<lparr>streamIndex := a, sampleIndex := b\<rparr>)"
  "mid_iteration S0 T S \<Longrightarrow> mid_iteration S0 T (S\<lparr>sampleIndex := b\<rparr>)"
  by (simp_all add: mid_iteration_def)

lemma mid_iteration_EnsureReady:
  assumes mid: "mid_iteration S0 T S" and fresh: "i \<notin> T"
  shows "mid_iteration S0 (insert i T) (EnsureReady E i S)"
proof -
  let ?S' = "EnsureReady E i S"
  from mid have m: "currentIteration S = currentIteration S0 + 1"
      "lastLargeStepIteration S = lastLargeStepIteration S0"
      "streamCount S = streamCount S0"
      "length (X S0) \<le> length (X S)"
      "T \<subseteq> {..<length (X S)}"
    and mall: "\<And>j. j < length (X S) \<Longrightarrow>
        if j \<in> T
        then lastModificationIteration (X S ! j) = currentIteration S0 + 1 \<and>
             (modifyBackup (X S ! j) = lastModificationIteration (coord_before S0 j) \<or>
              modifyBackup (X S ! j) = lastLargeStepIteration S0) \<and>
             (lastLargeStepIteration S0 \<le> lastModificationIteration (coord_before S0 j) \<longrightarrow>
                valueBackup (X S ! j) = sample_value (coord_before S0 j) \<and>
                modifyBackup (X S ! j) = lastModificationIteration (coord_before S0 j))
        else X S ! j = coord_before S0 j"
    by (simp_all add: mid_iteration_def)
  have before: "coord_before S i = coord_before S0 i"
  proof (cases "i < length (X S)")
    case True
    with mall [OF True] fresh show ?thesis by (simp add: coord_before_def)
  next
    case False
    with m(4) show ?thesis by (simp add: coord_before_def)
  qed
  have len: "length (X ?S') = max (length (X S)) (i + 1)"
    by (simp add: EnsureReady_length)
  show ?thesis
    unfolding mid_iteration_def
  proof (intro conjI allI impI)
    show "currentIteration ?S' = currentIteration S0 + 1"
      "lastLargeStepIteration ?S' = lastLargeStepIteration S0"
      "streamCount ?S' = streamCount S0"
      using m by simp_all
    show "length (X S0) \<le> length (X ?S')" using m(4) len by linarith
    show "insert i T \<subseteq> {..<length (X ?S')}" using m(5) len by auto
  next
    fix j assume j: "j < length (X ?S')"
    show "if j \<in> insert i T
        then lastModificationIteration (X ?S' ! j) = currentIteration S0 + 1 \<and>
             (modifyBackup (X ?S' ! j) = lastModificationIteration (coord_before S0 j) \<or>
              modifyBackup (X ?S' ! j) = lastLargeStepIteration S0) \<and>
             (lastLargeStepIteration S0 \<le> lastModificationIteration (coord_before S0 j) \<longrightarrow>
                valueBackup (X ?S' ! j) = sample_value (coord_before S0 j) \<and>
                modifyBackup (X ?S' ! j) = lastModificationIteration (coord_before S0 j))
        else X ?S' ! j = coord_before S0 j"
    proof (cases "j = i")
      case True
      have "lastModificationIteration (X ?S' ! i) = currentIteration S0 + 1"
        using EnsureReady_at(1) [of E i S] m(1) by simp
      moreover have "modifyBackup (X ?S' ! i) = lastModificationIteration (coord_before S0 i) \<or>
              modifyBackup (X ?S' ! i) = lastLargeStepIteration S0"
        using EnsureReady_at(2,3) [of S i E] before m(2)
        by (cases "lastLargeStepIteration S0 \<le> lastModificationIteration (coord_before S0 i)")
           auto
      moreover have "lastLargeStepIteration S0 \<le> lastModificationIteration (coord_before S0 i) \<longrightarrow>
                valueBackup (X ?S' ! i) = sample_value (coord_before S0 i) \<and>
                modifyBackup (X ?S' ! i) = lastModificationIteration (coord_before S0 i)"
        using EnsureReady_at(2) [of S i E] before m(2) by auto
      ultimately show ?thesis using True by simp
    next
      case False
      have other: "X ?S' ! j = (if j < length (X S) then X S ! j else PrimarySample_default)"
        using EnsureReady_other [OF False j] by simp
      show ?thesis
      proof (cases "j \<in> T")
        case True
        then have "j < length (X S)" using m(5) by auto
        with mall [OF this] True other show ?thesis by simp
      next
        case nt: False
        show ?thesis
        proof (cases "j < length (X S)")
          case True
          with mall [OF True] nt other False show ?thesis by simp
        next
          case False
          with m(4) have "\<not> j < length (X S0)" by simp
          with False nt other \<open>j \<noteq> i\<close> show ?thesis
            by (simp add: coord_before_def)
        qed
      qed
    qed
  qed
qed

lemma mid_iteration_Get1D:
  assumes mid: "mid_iteration S0 T S"
    and idx: "0 \<le> streamIndex S + streamCount S * sampleIndex S"
    and fresh: "nat (streamIndex S + streamCount S * sampleIndex S) \<notin> T"
  shows "\<exists>v S'. Get1D E S = Inr (v, S') \<and>
           mid_iteration S0 (insert (nat (streamIndex S + streamCount S * sampleIndex S)) T) S' \<and>
           streamIndex S' = streamIndex S \<and> sampleIndex S' = sampleIndex S + 1"
proof -
  let ?i = "nat (streamIndex S + streamCount S * sampleIndex S)"
  let ?S1 = "S\<lparr>sampleIndex := sampleIndex S + 1\<rparr>"
  have "Get1D E S = Inr (sample_value (X (EnsureReady E ?i ?S1) ! ?i), EnsureReady E ?i ?S1)"
    using idx by (simp add: Get1D_def GetNextIndex_def Let_def)
  moreover have "mid_iteration S0 (insert ?i T) (EnsureReady E ?i ?S1)"
    by (rule mid_iteration_EnsureReady [OF mid_iteration_cursor(2) [OF mid] fresh])
  ultimately show ?thesis by simp
qed

lemma nat_image_fresh:
  assumes "0 \<le> j" "j \<notin> set js" "list_all (\<lambda>j. 0 \<le> j) js"
  shows "nat j \<notin> nat ` set js"
proof
  assume "nat j \<in> nat ` set js"
  then obtain k where k: "k \<in> set js" "nat j = nat k" by auto
  with assms(3) have "0 \<le> k" by (simp add: list_all_iff)
  with k assms(1) have "j = k" by simp
  with k assms(2) show False by simp
qed

lemma mid_iteration_run:
  assumes "mid_iteration S0 T S"
    and "list_all (proposal_call (streamCount S0)) cs"
    and "distinct (drawn (streamCount S0) (streamIndex S, sampleIndex S) cs)"
    and "list_all (\<lambda>j. 0 \<le> j) (drawn (streamCount S0) (streamIndex S, sampleIndex S) cs)"
    and "nat ` set (drawn (streamCount S0) (streamIndex S, sampleIndex S) cs) \<inter> T = {}"
  shows "\<exists>vs S'. sampler_run E cs S = Inr (vs, S') \<and>
           mid_iteration S0
             (T \<union> nat ` set (drawn (streamCount S0) (streamIndex S, sampleIndex S) cs)) S' \<and>
           length vs = draws cs"
  using assms
proof (induction cs arbitrary: T S)
  case Nil
  then show ?case by simp
next
  case (Cons c cs)
  let ?n = "streamCount S0"
  from Cons.prems(1) have n: "streamCount S = ?n" by (simp add: mid_iteration_def)
  from Cons.prems(2) have pc: "proposal_call ?n c" and rest: "list_all (proposal_call ?n) cs"
    by simp_all
  show ?case
  proof (cases c)
    case CallGet1D
    let ?j = "streamIndex S + ?n * sampleIndex S"
    let ?D = "drawn ?n (streamIndex S, sampleIndex S + 1) cs"
    from Cons.prems(3,4,5) CallGet1D
    have d: "?j \<notin> set ?D" "distinct ?D" "0 \<le> ?j" "list_all (\<lambda>j. 0 \<le> j) ?D"
      "nat ?j \<notin> T" "nat ` set ?D \<inter> T = {}"
      by auto
    from mid_iteration_Get1D [OF Cons.prems(1), of E] d(3,5) n
    obtain x S1 where 1: "Get1D E S = Inr (x, S1)" "mid_iteration S0 (insert (nat ?j) T) S1"
      "streamIndex S1 = streamIndex S" "sampleIndex S1 = sampleIndex S + 1"
      by auto
    have fr: "nat ` set ?D \<inter> insert (nat ?j) T = {}"
      using d(6) nat_image_fresh [OF d(3) d(1) d(4)] by auto
    from Cons.IH [OF 1(2) rest, unfolded 1(3,4), OF d(2) d(4) fr]
    obtain vs S' where 2: "sampler_run E cs S1 = Inr (vs, S')"
      "mid_iteration S0 (insert (nat ?j) T \<union> nat ` set ?D) S'" "length vs = draws cs"
      by blast
    have "T \<union> nat ` set (drawn ?n (streamIndex S, sampleIndex S) (c # cs))
            = insert (nat ?j) T \<union> nat ` set ?D"
      using CallGet1D by auto
    with 1(1) 2 CallGet1D show ?thesis by simp
  next
    case CallGet2D
    let ?j = "streamIndex S + ?n * sampleIndex S"
    let ?k = "streamIndex S + ?n * (sampleIndex S + 1)"
    let ?D = "drawn ?n (streamIndex S, sampleIndex S + 2) cs"
    from Cons.prems(3,4,5) CallGet2D
    have d: "?j \<noteq> ?k" "?j \<notin> set ?D" "?k \<notin> set ?D" "distinct ?D" "0 \<le> ?j" "0 \<le> ?k"
      "list_all (\<lambda>j. 0 \<le> j) ?D" "nat ?j \<notin> T" "nat ?k \<notin> T" "nat ` set ?D \<inter> T = {}"
      by auto
    from mid_iteration_Get1D [OF Cons.prems(1), of E] d(5,8) n
    obtain x S1 where 1: "Get1D E S = Inr (x, S1)" "mid_iteration S0 (insert (nat ?j) T) S1"
      "streamIndex S1 = streamIndex S" "sampleIndex S1 = sampleIndex S + 1"
      by auto
    have n1: "streamCount S1 = ?n" using 1(2) by (simp add: mid_iteration_def)
    have "nat ?k \<noteq> nat ?j" using d(1) by (metis d(5) d(6) nat_0_le)
    with d(9) have f2: "nat ?k \<notin> insert (nat ?j) T" by simp
    from mid_iteration_Get1D [OF 1(2), of E] d(6) f2 n1 1(3,4)
    obtain y S2 where 2: "Get1D E S1 = Inr (y, S2)"
      "mid_iteration S0 (insert (nat ?k) (insert (nat ?j) T)) S2"
      "streamIndex S2 = streamIndex S" "sampleIndex S2 = sampleIndex S + 2"
      by auto
    have fr: "nat ` set ?D \<inter> insert (nat ?k) (insert (nat ?j) T) = {}"
      using d(10) nat_image_fresh [OF d(5) d(2) d(7)] nat_image_fresh [OF d(6) d(3) d(7)]
      by auto
    from Cons.IH [OF 2(2) rest, unfolded 2(3,4), OF d(4) d(7) fr]
    obtain vs S' where 3: "sampler_run E cs S2 = Inr (vs, S')"
      "mid_iteration S0 (insert (nat ?k) (insert (nat ?j) T) \<union> nat ` set ?D) S'"
      "length vs = draws cs"
      by blast
    have "T \<union> nat ` set (drawn ?n (streamIndex S, sampleIndex S) (c # cs))
            = insert (nat ?k) (insert (nat ?j) T) \<union> nat ` set ?D"
      using CallGet2D by auto
    with 1(1) 2(1) 3 CallGet2D show ?thesis by (simp add: Get2D_def)
  next
    case (CallStartStream index)
    let ?S1 = "S\<lparr>streamIndex := index, sampleIndex := 0\<rparr>"
    from pc CallStartStream n have st: "StartStream index S = Inr ?S1"
      by (simp add: StartStream_def)
    from Cons.prems(3,4,5) CallStartStream
    have d: "distinct (drawn ?n (streamIndex ?S1, sampleIndex ?S1) cs)"
      "list_all (\<lambda>j. 0 \<le> j) (drawn ?n (streamIndex ?S1, sampleIndex ?S1) cs)"
      "nat ` set (drawn ?n (streamIndex ?S1, sampleIndex ?S1) cs) \<inter> T = {}"
      by simp_all
    from Cons.IH [OF mid_iteration_cursor(1) [OF Cons.prems(1)] rest d]
    obtain vs S' where 2: "sampler_run E cs ?S1 = Inr (vs, S')"
      "mid_iteration S0 (T \<union> nat ` set (drawn ?n (streamIndex ?S1, sampleIndex ?S1) cs)) S'"
      "length vs = draws cs"
      by blast
    with st CallStartStream show ?thesis by simp
  next
    case CallStartIteration
    with pc show ?thesis by simp
  next
    case CallAccept
    with pc show ?thesis by simp
  next
    case CallReject
    with pc show ?thesis by simp
  qed
qed



lemma proposal_run:
  assumes "proposal_ok S0 cs"
  shows "\<exists>vs S2. sampler_run E cs (StartIteration E S0) = Inr (vs, S2) \<and>
           mid_iteration S0 (touched_by S0 cs) S2 \<and> length vs = draws cs"
proof -
  have c: "streamIndex (StartIteration E S0) = streamIndex S0"
    "sampleIndex (StartIteration E S0) = sampleIndex S0"
    by (simp_all add: StartIteration_def split: prod.splits)
  from assms have p: "list_all (proposal_call (streamCount S0)) cs"
    "distinct (drawn (streamCount S0) (streamIndex S0, sampleIndex S0) cs)"
    "list_all (\<lambda>j. 0 \<le> j) (drawn (streamCount S0) (streamIndex S0, sampleIndex S0) cs)"
    by (simp_all add: proposal_ok_def)
  from mid_iteration_run [OF mid_iteration_start [of S0 E] p(1), unfolded c, OF p(2,3), of E]
  show ?thesis by (simp add: touched_by_def)
qed


subsection \<open>Draws from one stream\<close>

lemma drawn_gets_append:
  assumes "only_gets A"
  shows "drawn n (si, k) (A @ cs) =
           map (\<lambda>j. si + n * (k + int j)) [0..<draws A] @ drawn n (si, k + int (draws A)) cs"
  using assms
proof (induction A arbitrary: k)
  case Nil
  then show ?case by simp
next
  case (Cons c A)
  from Cons.prems have c: "c = CallGet1D \<or> c = CallGet2D" and rest: "only_gets A"
    by (simp_all add: only_gets_def)
  from c show ?case
  proof
    assume c1: "c = CallGet1D"
    show ?thesis
      using Cons.IH [OF rest, of "k + 1"] c1
      by (simp add: map_upt_Suc algebra_simps del: upt_Suc)
  next
    assume c2: "c = CallGet2D"
    show ?thesis
      using Cons.IH [OF rest, of "k + 2"] c2
      by (simp add: map_upt_Suc algebra_simps del: upt_Suc)
  qed
qed


lemma proposal_call_gets: "only_gets cs \<Longrightarrow> list_all (proposal_call n) cs"
  by (induction cs) (auto simp: only_gets_def)

lemma stream_indices:
  assumes "1 \<le> n" "0 \<le> si" "0 \<le> k"
  shows "distinct (map (\<lambda>j. si + n * (k + int j)) [0..<d])"
    and "list_all (\<lambda>j. 0 \<le> j) (map (\<lambda>j. si + n * (k + int j)) [0..<d])"
proof -
  have "inj_on (\<lambda>j. si + n * (k + int j)) (set [0..<d])"
    using assms(1) by (auto simp: inj_on_def)
  then show "distinct (map (\<lambda>j. si + n * (k + int j)) [0..<d])"
    by (simp add: distinct_map)
  show "list_all (\<lambda>j. 0 \<le> j) (map (\<lambda>j. si + n * (k + int j)) [0..<d])"
    using assms by (simp add: list_all_iff)
qed



subsection \<open>Draws from several streams\<close>

lemma distinct_concat_map:
  assumes "distinct xs" "\<And>x. x \<in> set xs \<Longrightarrow> distinct (f x)"
    and "\<And>x y. x \<in> set xs \<Longrightarrow> y \<in> set xs \<Longrightarrow> x \<noteq> y \<Longrightarrow> set (f x) \<inter> set (f y) = {}"
  shows "distinct (concat (map f xs))"
  using assms
proof (induction xs)
  case Nil
  then show ?case by simp
next
  case (Cons x xs)
  have "distinct (concat (map f xs))" using Cons by auto
  moreover have "distinct (f x)" using Cons.prems(2) by simp
  moreover have "set (f x) \<inter> set (concat (map f xs)) = {}"
    using Cons.prems(1,3) by fastforce
  ultimately show ?case by simp
qed

lemma drawn_stream_calls:
  assumes "\<forall>(index, A)\<in>set segs. only_gets A"
  shows "drawn n cur (stream_calls segs) =
           concat (map (\<lambda>(index, A). map (\<lambda>j. index + n * int j) [0..<draws A]) segs)"
  using assms
proof (induction segs arbitrary: cur)
  case Nil
  then show ?case by (simp add: stream_calls_def)
next
  case (Cons seg segs)
  obtain index A where seg: "seg = (index, A)" by (cases seg)
  from Cons.prems seg have A: "only_gets A" and rest: "\<forall>(index, A)\<in>set segs. only_gets A"
    by auto
  have "stream_calls (seg # segs) = CallStartStream index # A @ stream_calls segs"
    by (simp add: stream_calls_def seg)
  then show ?case
    using drawn_gets_append [OF A, of n index 0 "stream_calls segs"] Cons.IH [OF rest] seg
    by (cases cur) simp
qed

lemma stream_residue:
  assumes "0 \<le> i" "i < n" "0 \<le> i'" "i' < n" "i + n * j = i' + n * (j'::int)"
  shows "i = i'"
proof -
  have "(i + n * j) mod n = i" "(i' + n * j') mod n = i'"
    using assms(1-4) by simp_all
  with assms(5) show ?thesis by simp
qed

lemma stream_calls_proposal_ok:
  assumes d: "distinct (map fst segs)"
    and segs: "\<forall>(index, A)\<in>set segs. 0 \<le> index \<and> index < streamCount S \<and> only_gets A"
  shows "proposal_ok S (stream_calls segs)"
proof -
  let ?n = "streamCount S"
  let ?f = "\<lambda>(index, A). map (\<lambda>j. index + ?n * int j) [0..<draws A]"
  from segs have og: "\<forall>(index, A)\<in>set segs. only_gets A" by auto
  have calls: "list_all (proposal_call ?n) (stream_calls segs)"
    using segs
  proof (induction segs)
    case Nil
    then show ?case by (simp add: stream_calls_def)
  next
    case (Cons seg segs)
    obtain index A where seg: "seg = (index, A)" by (cases seg)
    from Cons.prems seg have "index < ?n" "only_gets A" by auto
    moreover from Cons have "list_all (proposal_call ?n) (stream_calls segs)" by auto
    ultimately show ?case
      using proposal_call_gets [of A ?n] by (simp add: stream_calls_def seg)
  qed
  have dist: "distinct (concat (map ?f segs))"
  proof (rule distinct_concat_map)
    show "distinct segs" using d by (rule distinct_map [THEN iffD1, THEN conjunct1])
  next
    fix seg assume "seg \<in> set segs"
    with segs obtain index A where seg: "seg = (index, A)" "0 \<le> index" "index < ?n"
      by (cases seg) auto
    then have "1 \<le> ?n" by simp
    from stream_indices(1) [OF this seg(2), of 0 "draws A"] seg(1)
    show "distinct (?f seg)" by simp
  next
    fix seg seg' assume in_segs: "seg \<in> set segs" "seg' \<in> set segs" and ne: "seg \<noteq> seg'"
    obtain i A i' A' where sg: "seg = (i, A)" "seg' = (i', A')"
      by (cases seg; cases seg') blast
    from segs in_segs(1) sg(1) have b1: "0 \<le> i" "i < ?n" by blast+
    from segs in_segs(2) sg(2) have b2: "0 \<le> i'" "i' < ?n" by blast+
    note seg = sg(1) b1 sg(2) b2
    from d in_segs ne have "fst seg \<noteq> fst seg'"
      by (meson distinct_map inj_on_def)
    with seg have "i \<noteq> i'" by simp
    with stream_residue [OF seg(2,3,5,6)] seg(1,4)
    show "set (?f seg) \<inter> set (?f seg') = {}" by auto
  qed
  have nonneg: "list_all (\<lambda>j. 0 \<le> j) (concat (map ?f segs))"
    using segs by (fastforce simp: list_all_iff)
  from calls dist nonneg show ?thesis
    unfolding proposal_ok_def drawn_stream_calls [OF og] by simp
qed

text \<open>
  The calls that \<^verbatim>\<open>MLTIntegrator::L\<close> makes on the sampler: it starts the camera stream
  and draws, and unless it returns early it starts the light stream and draws, and then
  the connection stream.
\<close>

lemma MLT_L_proposal_ok:
  assumes "streamCount S = nSampleStreams" "only_gets A" "only_gets B" "only_gets C"
  shows "proposal_ok S (stream_calls [(cameraStreamIndex, A)])"
    and "proposal_ok S (stream_calls [(cameraStreamIndex, A), (lightStreamIndex, B)])"
    and "proposal_ok S (stream_calls [(cameraStreamIndex, A), (lightStreamIndex, B),
                                       (connectionStreamIndex, C)])"
  using assms
  by (auto intro!: stream_calls_proposal_ok
           simp: nSampleStreams_def cameraStreamIndex_def lightStreamIndex_def
                 connectionStreamIndex_def)

subsection \<open>The well-formedness conditions are invariants\<close>

text \<open>
  The constructor establishes \<open>sampler_inv\<close>; \<^verbatim>\<open>StartStream\<close>, draws outside an
  iteration, and iterations that end in \<^verbatim>\<open>Accept\<close> or \<^verbatim>\<open>Reject\<close> preserve it,
  provided the iteration draws no coordinate twice, as is the case for the calls of
  \<^verbatim>\<open>MLTIntegrator::L\<close> (lemma \<open>MLT_L_proposal_ok\<close>).
\<close>

lemma sampler_inv_new: "sampler_inv (MLTSampler_new E m seed sig lsp n cursor)"
  by (simp add: sampler_inv_def coords_not_ahead_def MLTSampler_new_def)

lemma sampler_inv_StartStream:
  assumes "StartStream index S = Inr S'" "sampler_inv S"
  shows "sampler_inv S'" and "0 \<le> index \<Longrightarrow> cursor_ok S'"
  using assms
  by (auto simp: StartStream_def sampler_inv_def coords_not_ahead_def cursor_ok_def
           split: if_splits)

lemma coord_before_not_ahead:
  assumes "sampler_inv S"
  shows "lastModificationIteration (coord_before S i) \<le> currentIteration S"
  using assms
  by (auto simp: sampler_inv_def coords_not_ahead_def coord_before_def list_all_length
                 PrimarySample_default_def)

lemma sampler_inv_EnsureReady:
  assumes "sampler_inv S"
  shows "sampler_inv (EnsureReady E i S)"
proof -
  have "lastModificationIteration (X (EnsureReady E i S) ! j) \<le> currentIteration S"
    if j: "j < length (X (EnsureReady E i S))" for j
  proof (cases "j = i")
    case True
    then show ?thesis using EnsureReady_at(1) [of E i S] by simp
  next
    case False
    from EnsureReady_other [OF False j]
    have "X (EnsureReady E i S) ! j = coord_before S j" by (simp add: coord_before_def)
    then show ?thesis using coord_before_not_ahead [OF assms, of j] by simp
  qed
  then show ?thesis
    using assms by (simp add: sampler_inv_def coords_not_ahead_def list_all_length)
qed

lemma sampler_inv_Get1D:
  assumes "Get1D E S = Inr (v, S')" "sampler_inv S"
  shows "sampler_inv S'"
proof -
  have "sampler_inv (S\<lparr>sampleIndex := k\<rparr>)" for k
    using assms(2) by (simp add: sampler_inv_def coords_not_ahead_def)
  from sampler_inv_EnsureReady [OF this] assms(1) show ?thesis
    by (auto simp: Get1D_def GetNextIndex_def Let_def split: if_splits)
qed

lemma mid_iteration_coords:
  assumes mid: "mid_iteration S0 T S2" and inv: "sampler_inv S0" and i: "i < length (X S2)"
  shows "lastModificationIteration (X S2 ! i) \<le> currentIteration S0 + 1"
    and "lastModificationIteration (X S2 ! i) = currentIteration S0 + 1 \<Longrightarrow>
           modifyBackup (X S2 ! i) \<le> currentIteration S0"
proof -
  from mid i have a: "if i \<in> T
        then lastModificationIteration (X S2 ! i) = currentIteration S0 + 1 \<and>
             (modifyBackup (X S2 ! i) = lastModificationIteration (coord_before S0 i) \<or>
              modifyBackup (X S2 ! i) = lastLargeStepIteration S0) \<and>
             (lastLargeStepIteration S0 \<le> lastModificationIteration (coord_before S0 i) \<longrightarrow>
                valueBackup (X S2 ! i) = sample_value (coord_before S0 i) \<and>
                modifyBackup (X S2 ! i) = lastModificationIteration (coord_before S0 i))
        else X S2 ! i = coord_before S0 i"
    by (simp add: mid_iteration_def)
  note cb = coord_before_not_ahead [OF inv, of i]
  from inv have ll: "lastLargeStepIteration S0 \<le> currentIteration S0"
    by (simp add: sampler_inv_def)
  show "lastModificationIteration (X S2 ! i) \<le> currentIteration S0 + 1"
    using a cb by (cases "i \<in> T") auto
  show "modifyBackup (X S2 ! i) \<le> currentIteration S0"
    if "lastModificationIteration (X S2 ! i) = currentIteration S0 + 1"
    using a cb ll that by (cases "i \<in> T") auto
qed

lemma sampler_inv_proposal:
  assumes ok: "proposal_ok S0 cs" and inv: "sampler_inv S0"
    and run: "sampler_run E cs (StartIteration E S0) = Inr (vs, S2)"
  shows "sampler_inv (Reject S2)" and "sampler_inv (Accept S2)"
proof -
  from proposal_run [OF ok, of E] run
  have mid: "mid_iteration S0 (touched_by S0 cs) S2" by auto
  then have cur: "currentIteration S2 = currentIteration S0 + 1"
    and ll: "lastLargeStepIteration S2 = lastLargeStepIteration S0"
    by (simp_all add: mid_iteration_def)
  from inv have i0: "0 \<le> currentIteration S0" "lastLargeStepIteration S0 \<le> currentIteration S0"
    by (simp_all add: sampler_inv_def)
  note mc = mid_iteration_coords [OF mid inv]
  have "lastModificationIteration (X (Reject S2) ! i) \<le> currentIteration S0"
    if "i < length (X S2)" for i
    using mc(1) [OF that] mc(2) [OF that] that cur
    by (auto simp: Reject_def Restore_def)
  then show "sampler_inv (Reject S2)"
    using i0 cur ll
    by (simp add: sampler_inv_def coords_not_ahead_def list_all_length Reject_def)
  show "sampler_inv (Accept S2)"
    using i0 cur ll mc(1)
    by (simp add: sampler_inv_def coords_not_ahead_def list_all_length Accept_def)
qed

lemma sampler_inv_not_ahead: "sampler_inv S \<Longrightarrow> coords_not_ahead S"
  by (simp add: sampler_inv_def)




section \<open>The small step in exact arithmetic\<close>

text \<open>
  With the reals in place of \<^verbatim>\<open>Float\<close> and the exact floor function, the wrap-around
  \<^verbatim>\<open>Xi.value -= std::floor(Xi.value)\<close> of a small step leaves the coordinate in
  \<open>[0, 1)\<close>, whatever the perturbation and however large \<^verbatim>\<open>sigma\<close>. This is a fact of
  exact arithmetic only: it says nothing about the rounded difference that the program
  computes, nor about infinite or undefined perturbations, which the reals do not have.
\<close>

lemma small_step_wraps_exact:
  fixes E :: "(real, 'r) float_env"
  assumes fl: "std_floor E = (\<lambda>x. of_int \<lfloor>x\<rfloor>)" and small: "\<not> largeStep S"
  shows "0 \<le> sample_value (X (EnsureReady E i S) ! i) \<and>
         sample_value (X (EnsureReady E i S) ! i) < 1"
proof -
  have w: "0 \<le> v - of_int \<lfloor>v\<rfloor> \<and> v - of_int \<lfloor>v\<rfloor> < 1" for v :: real
    by linarith
  show ?thesis
    using small w
    by (auto simp: EnsureReady_def Let_def fl split: prod.splits)
qed


section \<open>Two runs from one seed agree\<close>










section \<open>\<^verbatim>\<open>MISWeight\<close> leaves the subpaths as it found them\<close>

lemma set_vertices_same [simp]: "set_vertices m a (vertices m a) = m"
  by (cases a) simp_all

lemma vertices_set_vertices [simp]: "vertices (set_vertices m a vs) a = vs"
  by (cases a) simp_all

lemma set_vertices_twice [simp]: "set_vertices (set_vertices m a vs) a ws = set_vertices m a ws"
  by (cases a) simp_all

lemma update_vertex_undo:
  assumes "update_vertex m a i f = Some m'" and "g (f (vertices m a ! i)) = vertices m a ! i"
  shows "update_vertex m' a i (\<lambda>_. g (f (vertices m a ! i))) = Some m"
  using assms by (auto simp: update_vertex_def split: if_splits)

lemma store_load_undo:
  assumes "load m l = Some old" "store m l v = Some m'"
  shows "store m' l old = Some m"
proof (cases l)
  case (VertexAt a i)
  with assms obtain x where v: "v = VertexVal x" by (cases v) auto
  from assms VertexAt v show ?thesis
    by (auto simp: update_vertex_def split: if_splits)
next
  case (DeltaOf a i)
  with assms obtain b where v: "v = BoolVal b" by (cases v) auto
  from assms DeltaOf v show ?thesis
    by (auto simp: update_vertex_def split: if_splits)
next
  case (PdfRevOf a i)
  with assms obtain x where v: "v = FloatVal x" by (cases v) auto
  from assms PdfRevOf v show ?thesis
    by (auto simp: update_vertex_def split: if_splits)
qed

lemma ScopedAssignment_undo:
  assumes "ScopedAssignment m target v = Some (a, m')"
  shows "ScopedAssignment_destroy a m' = Some m"
  using assms
  by (auto simp: ScopedAssignment_def ScopedAssignment_destroy_def bind_eq_Some_conv
           split: option.splits intro: store_load_undo)

lemma unwinds_to_start: "unwinds_to m ([], m)"
  by (simp add: unwinds_to_def)

lemma assign_unwinds:
  assumes "assign target v fr = Some fr'" "unwinds_to m fr"
  shows "unwinds_to m fr'"
  using assms ScopedAssignment_undo
  by (fastforce simp: assign_def unwinds_to_def split: option.splits)

lemma bind_SomeE:
  assumes "Option.bind x f = Some r"
  obtains y where "x = Some y" "f y = Some r"
  using assms by (auto simp: bind_eq_Some_conv)

lemma first_assign_unwinds:
  assumes "(if a then assign t1 v ([], m) else if b then assign t2 v ([], m) else Some ([], m))
             = Some fr'"
  shows "unwinds_to m fr'"
  using assms unwinds_to_start [of m] by (auto split: if_splits intro: assign_unwinds)

lemma guarded_assign_unwinds:
  assumes "(if c then assign target v fr else Some fr) = Some fr'" and "unwinds_to m fr"
  shows "unwinds_to m fr'"
  using assms by (auto split: if_splits intro: assign_unwinds)

lemma computed_assign_unwinds:
  assumes "(if c then Option.bind x (\<lambda>y. assign target (v y) fr) else Some fr) = Some fr'"
    and "unwinds_to m fr"
  shows "unwinds_to m fr'"
  using assms by (auto simp: bind_eq_Some_conv split: if_splits intro: assign_unwinds)

lemma scoped_overwrites_unwinds:
  assumes "scoped_overwrites V sampled s t qs pt qsMinus ptMinus m = Some fr"
  shows "unwinds_to m fr"
  using assms unfolding scoped_overwrites_def
  apply (elim bind_SomeE)
  apply (drule first_assign_unwinds)
  apply (drule (1) guarded_assign_unwinds)
  apply (drule (1) guarded_assign_unwinds)
  apply (drule (1) computed_assign_unwinds)
  apply (drule (1) computed_assign_unwinds)
  apply (drule (1) computed_assign_unwinds)
  apply (drule (1) computed_assign_unwinds)
  apply simp
  done

lemma MISWeight_frame:
  assumes "MISWeight V m sampled s t = Some (w, m')"
  shows "m' = m"
proof (cases "s + t = 2")
  case True
  with assms show ?thesis by (simp add: MISWeight_def)
next
  case False
  with assms obtain fr where fr: "scoped_overwrites V sampled s t
        (if 0 < s then Some (LightSubpath, nat (s - 1)) else None)
        (if 0 < t then Some (CameraSubpath, nat (t - 1)) else None)
        (if 1 < s then Some (LightSubpath, nat (s - 2)) else None)
        (if 1 < t then Some (CameraSubpath, nat (t - 2)) else None) m = Some fr"
    and un: "unwind (fst fr) (snd fr) = Some m'"
    unfolding MISWeight_def Let_def
    by (auto simp: bind_eq_Some_conv simp del: not_None_eq split: if_splits)
  from scoped_overwrites_unwinds [OF fr] un show ?thesis by (simp add: unwinds_to_def)
qed

subsection \<open>A strategy in range never reads outside the subpaths\<close>

lemma valid_ptr_vertices:
  "valid_ptr (shape m) (Some (a, i)) \<longleftrightarrow> i < length (vertices m a)"
  by (cases a) (simp_all add: shape_def)

lemma deref_total:
  assumes "p \<noteq> None" "valid_ptr (shape m) p"
  shows "\<exists>v. deref m p = Some v"
  using assms by (cases p) (auto simp: valid_ptr_vertices)

lemma deref_arg_total:
  assumes "valid_ptr (shape m) p"
  shows "\<exists>v. deref_arg m p = Some v"
  using assms by (cases p) (auto simp: valid_ptr_vertices)

lemma shape_update_vertex:
  "update_vertex m a i f = Some m' \<Longrightarrow> shape m' = shape m"
  by (cases a) (auto simp: update_vertex_def shape_def split: if_splits)

lemma update_vertex_total:
  "valid_ptr (shape m) (Some (a, i)) \<Longrightarrow> \<exists>m'. update_vertex m a i f = Some m'"
  by (simp add: valid_ptr_vertices update_vertex_def)

lemma assign_total:
  assumes "valid_ptr (shape (snd fr)) p"
  shows "\<exists>fr'. assign (whole p) (VertexVal v) fr = Some fr' \<and> shape (snd fr') = shape (snd fr)"
    and "\<exists>fr'. assign (delta_of p) (BoolVal b) fr = Some fr' \<and> shape (snd fr') = shape (snd fr)"
    and "\<exists>fr'. assign (pdfRev_of p) (FloatVal x) fr = Some fr' \<and> shape (snd fr') = shape (snd fr)"
proof -
  show "\<exists>fr'. assign (whole p) (VertexVal v) fr = Some fr' \<and> shape (snd fr') = shape (snd fr)"
  proof (cases p)
    case None
    then show ?thesis by (simp add: assign_def whole_def ScopedAssignment_def)
  next
    case (Some ai)
    obtain a i where ai: "ai = (a, i)" by (cases ai)
    from assms Some ai have v: "i < length (vertices (snd fr) a)"
      by (simp add: valid_ptr_vertices)
    from update_vertex_total [of "snd fr" a i "\<lambda>_. v"] assms Some ai
    obtain m' where m': "update_vertex (snd fr) a i (\<lambda>_. v) = Some m'" by auto
    from shape_update_vertex [OF m'] m' v Some ai show ?thesis
      by (simp add: assign_def whole_def ScopedAssignment_def)
  qed
  show "\<exists>fr'. assign (delta_of p) (BoolVal b) fr = Some fr' \<and> shape (snd fr') = shape (snd fr)"
  proof (cases p)
    case None
    then show ?thesis by (simp add: assign_def delta_of_def ScopedAssignment_def)
  next
    case (Some ai)
    obtain a i where ai: "ai = (a, i)" by (cases ai)
    from assms Some ai have v: "i < length (vertices (snd fr) a)"
      by (simp add: valid_ptr_vertices)
    from update_vertex_total [of "snd fr" a i "\<lambda>v. v\<lparr>delta := b\<rparr>"] assms Some ai
    obtain m' where m': "update_vertex (snd fr) a i (\<lambda>v. v\<lparr>delta := b\<rparr>) = Some m'" by auto
    from shape_update_vertex [OF m'] m' v Some ai show ?thesis
      by (simp add: assign_def delta_of_def ScopedAssignment_def)
  qed
  show "\<exists>fr'. assign (pdfRev_of p) (FloatVal x) fr = Some fr' \<and> shape (snd fr') = shape (snd fr)"
  proof (cases p)
    case None
    then show ?thesis by (simp add: assign_def pdfRev_of_def ScopedAssignment_def)
  next
    case (Some ai)
    obtain a i where ai: "ai = (a, i)" by (cases ai)
    from assms Some ai have v: "i < length (vertices (snd fr) a)"
      by (simp add: valid_ptr_vertices)
    from update_vertex_total [of "snd fr" a i "\<lambda>v. v\<lparr>pdfRev := x\<rparr>"] assms Some ai
    obtain m' where m': "update_vertex (snd fr) a i (\<lambda>v. v\<lparr>pdfRev := x\<rparr>) = Some m'" by auto
    from shape_update_vertex [OF m'] m' v Some ai show ?thesis
      by (simp add: assign_def pdfRev_of_def ScopedAssignment_def)
  qed
qed

lemma camera_walk_total:
  "n < length cv \<Longrightarrow> \<exists>r. camera_walk cv n acc = Some r"
proof (induction n arbitrary: acc)
  case 0
  then show ?case by simp
next
  case (Suc n)
  then show ?case by (cases acc) (simp add: Let_def)
qed

lemma light_walk_total:
  "n \<le> length lv \<Longrightarrow> \<exists>r. light_walk V lv n acc = Some r"
proof (induction n arbitrary: acc)
  case 0
  then show ?case by simp
next
  case (Suc n)
  then show ?case by (cases acc) (simp add: Let_def)
qed

lemma scoped_overwrites_total:
  assumes r: "strategy_in_range m s t" and n2: "s + t \<noteq> 2"
    and qs: "qs = (if 0 < s then Some (LightSubpath, nat (s - 1)) else None)"
    and pt: "pt = (if 0 < t then Some (CameraSubpath, nat (t - 1)) else None)"
    and qsMinus: "qsMinus = (if 1 < s then Some (LightSubpath, nat (s - 2)) else None)"
    and ptMinus: "ptMinus = (if 1 < t then Some (CameraSubpath, nat (t - 2)) else None)"
  shows "\<exists>fr. scoped_overwrites V sampled s t qs pt qsMinus ptMinus m = Some fr \<and>
              shape (snd fr) = shape m"
proof -
  from r have b: "0 \<le> s" "1 \<le> t" "2 \<le> s + t" "s \<le> int (length (lightVertices m))"
    "t \<le> int (length (cameraVertices m))"
    by (simp_all add: strategy_in_range_def)
  have v: "valid_ptr (shape m) qs" "valid_ptr (shape m) pt" "valid_ptr (shape m) qsMinus"
    "valid_ptr (shape m) ptMinus"
    using b by (auto simp: qs pt qsMinus ptMinus shape_def)
  have ptn: "pt \<noteq> None" using b by (simp add: pt)
  have qsn: "0 < s \<Longrightarrow> qs \<noteq> None" by (simp add: qs)
  have ptmn: "\<not> 0 < s \<Longrightarrow> ptMinus \<noteq> None" using b n2 by (simp add: ptMinus)
  have ptmn': "ptMinus \<noteq> None \<Longrightarrow> pt \<noteq> None" using ptn by simp
  have qsmn: "qsMinus \<noteq> None \<Longrightarrow> qs \<noteq> None" by (auto simp: qs qsMinus split: if_splits)
  have qs0: "qs \<noteq> None \<Longrightarrow> 0 < s" by (auto simp: qs split: if_splits)
  obtain f1 where f1: "(if s = 1 then assign (whole qs) (VertexVal sampled) ([], m)
              else if t = 1 then assign (whole pt) (VertexVal sampled) ([], m)
              else Some ([], m)) = Some f1" "shape (snd f1) = shape m"
    using assign_total(1) [of "([], m)" qs sampled] assign_total(1) [of "([], m)" pt sampled] v
    by (cases "s = 1"; cases "t = 1") auto
  obtain f2 where f2: "(if pt \<noteq> None then assign (delta_of pt) (BoolVal False) f1 else Some f1)
       = Some f2" "shape (snd f2) = shape m"
    using assign_total(2) [of f1 pt False] v f1(2) by (cases "pt \<noteq> None") auto
  obtain f3 where f3: "(if qs \<noteq> None then assign (delta_of qs) (BoolVal False) f2 else Some f2)
       = Some f3" "shape (snd f3) = shape m"
    using assign_total(2) [of f2 qs False] v f2(2) by (cases "qs \<noteq> None") auto
  have x4: "\<exists>x. (if 0 < s
                      then do { q \<leftarrow> deref (snd f3) qs;
                                qm \<leftarrow> deref_arg (snd f3) qsMinus;
                                p \<leftarrow> deref (snd f3) pt;
                                Some (Pdf V q qm p) }
                      else do { p \<leftarrow> deref (snd f3) pt;
                                pm \<leftarrow> deref (snd f3) ptMinus;
                                Some (PdfLightOrigin V p pm) }) = Some x"
    using deref_total [of qs "snd f3"] deref_total [of pt "snd f3"]
      deref_total [of ptMinus "snd f3"] deref_arg_total [of "snd f3" qsMinus]
      v f3(2) ptn qsn ptmn
    by (cases "0 < s") auto
  obtain f4 where f4: "(if pt \<noteq> None
              then do {
                x \<leftarrow> (if 0 < s
                      then do { q \<leftarrow> deref (snd f3) qs;
                                qm \<leftarrow> deref_arg (snd f3) qsMinus;
                                p \<leftarrow> deref (snd f3) pt;
                                Some (Pdf V q qm p) }
                      else do { p \<leftarrow> deref (snd f3) pt;
                                pm \<leftarrow> deref (snd f3) ptMinus;
                                Some (PdfLightOrigin V p pm) });
                assign (pdfRev_of pt) (FloatVal x) f3 }
              else Some f3) = Some f4" "shape (snd f4) = shape m"
  proof -
    from x4 obtain x where x: "(if 0 < s
                      then do { q \<leftarrow> deref (snd f3) qs;
                                qm \<leftarrow> deref_arg (snd f3) qsMinus;
                                p \<leftarrow> deref (snd f3) pt;
                                Some (Pdf V q qm p) }
                      else do { p \<leftarrow> deref (snd f3) pt;
                                pm \<leftarrow> deref (snd f3) ptMinus;
                                Some (PdfLightOrigin V p pm) }) = Some x" by blast
    from assign_total(3) [of f3 pt x] v f3(2)
    obtain f where "assign (pdfRev_of pt) (FloatVal x) f3 = Some f" "shape (snd f) = shape m"
      by auto
    with x ptn that show thesis by simp
  qed
  obtain f5 where f5: "(if ptMinus \<noteq> None
              then do {
                x \<leftarrow> (if 0 < s
                      then do { p \<leftarrow> deref (snd f4) pt;
                                q \<leftarrow> deref_arg (snd f4) qs;
                                pm \<leftarrow> deref (snd f4) ptMinus;
                                Some (Pdf V p q pm) }
                      else do { p \<leftarrow> deref (snd f4) pt;
                                pm \<leftarrow> deref (snd f4) ptMinus;
                                Some (PdfLight V p pm) });
                assign (pdfRev_of ptMinus) (FloatVal x) f4 }
              else Some f4) = Some f5" "shape (snd f5) = shape m"
  proof (cases "ptMinus \<noteq> None")
    case False
    with f4(2) that show thesis by simp
  next
    case True
    have "\<exists>x. (if 0 < s
                      then do { p \<leftarrow> deref (snd f4) pt;
                                q \<leftarrow> deref_arg (snd f4) qs;
                                pm \<leftarrow> deref (snd f4) ptMinus;
                                Some (Pdf V p q pm) }
                      else do { p \<leftarrow> deref (snd f4) pt;
                                pm \<leftarrow> deref (snd f4) ptMinus;
                                Some (PdfLight V p pm) }) = Some x"
      using deref_total [of pt "snd f4"] deref_total [of ptMinus "snd f4"]
        deref_arg_total [of "snd f4" qs] v f4(2) ptn True
      by (cases "0 < s") auto
    then obtain x where x: "(if 0 < s
                      then do { p \<leftarrow> deref (snd f4) pt;
                                q \<leftarrow> deref_arg (snd f4) qs;
                                pm \<leftarrow> deref (snd f4) ptMinus;
                                Some (Pdf V p q pm) }
                      else do { p \<leftarrow> deref (snd f4) pt;
                                pm \<leftarrow> deref (snd f4) ptMinus;
                                Some (PdfLight V p pm) }) = Some x" by blast
    from assign_total(3) [of f4 ptMinus x] v f4(2)
    obtain f where "assign (pdfRev_of ptMinus) (FloatVal x) f4 = Some f"
      "shape (snd f) = shape m" by auto
    with x True that show thesis by simp
  qed
  obtain f6 where f6: "(if qs \<noteq> None
              then do {
                x \<leftarrow> do { p \<leftarrow> deref (snd f5) pt;
                          pm \<leftarrow> deref_arg (snd f5) ptMinus;
                          q \<leftarrow> deref (snd f5) qs;
                          Some (Pdf V p pm q) };
                assign (pdfRev_of qs) (FloatVal x) f5 }
              else Some f5) = Some f6" "shape (snd f6) = shape m"
  proof (cases "qs \<noteq> None")
    case False
    with f5(2) that show thesis by simp
  next
    case True
    have "\<exists>x. do { p \<leftarrow> deref (snd f5) pt;
                          pm \<leftarrow> deref_arg (snd f5) ptMinus;
                          q \<leftarrow> deref (snd f5) qs;
                          Some (Pdf V p pm q) } = Some x"
      using deref_total [of pt "snd f5"] deref_total [of qs "snd f5"]
        deref_arg_total [of "snd f5" ptMinus] v f5(2) ptn True
      by auto
    then obtain x where x: "do { p \<leftarrow> deref (snd f5) pt;
                          pm \<leftarrow> deref_arg (snd f5) ptMinus;
                          q \<leftarrow> deref (snd f5) qs;
                          Some (Pdf V p pm q) } = Some x" by blast
    from assign_total(3) [of f5 qs x] v f5(2)
    obtain f where "assign (pdfRev_of qs) (FloatVal x) f5 = Some f"
      "shape (snd f) = shape m" by auto
    with x True that show thesis by simp
  qed
  obtain f7 where f7: "(if qsMinus \<noteq> None
              then do {
                x \<leftarrow> do { q \<leftarrow> deref (snd f6) qs;
                          p \<leftarrow> deref_arg (snd f6) pt;
                          qm \<leftarrow> deref (snd f6) qsMinus;
                          Some (Pdf V q p qm) };
                assign (pdfRev_of qsMinus) (FloatVal x) f6 }
              else Some f6) = Some f7" "shape (snd f7) = shape m"
  proof (cases "qsMinus \<noteq> None")
    case False
    with f6(2) that show thesis by simp
  next
    case True
    have "\<exists>x. do { q \<leftarrow> deref (snd f6) qs;
                          p \<leftarrow> deref_arg (snd f6) pt;
                          qm \<leftarrow> deref (snd f6) qsMinus;
                          Some (Pdf V q p qm) } = Some x"
      using deref_total [of qs "snd f6"] deref_total [of qsMinus "snd f6"]
        deref_arg_total [of "snd f6" pt] v f6(2) qsmn True
      by auto
    then obtain x where x: "do { q \<leftarrow> deref (snd f6) qs;
                          p \<leftarrow> deref_arg (snd f6) pt;
                          qm \<leftarrow> deref (snd f6) qsMinus;
                          Some (Pdf V q p qm) } = Some x" by blast
    from assign_total(3) [of f6 qsMinus x] v f6(2)
    obtain f where "assign (pdfRev_of qsMinus) (FloatVal x) f6 = Some f"
      "shape (snd f) = shape m" by auto
    with x True that show thesis by simp
  qed
  have "scoped_overwrites V sampled s t qs pt qsMinus ptMinus m = Some f7"
    unfolding scoped_overwrites_def
    by (simp only: f1(1) f2(1) f3(1) f4(1) f5(1) f6(1) f7(1) Option.bind.simps)
  with f7(2) show ?thesis by blast
qed

lemma MISWeight_total:
  assumes "strategy_in_range m s t"
  shows "\<exists>w. MISWeight V m sampled s t = Some (w, m)"
proof (cases "s + t = 2")
  case True
  then show ?thesis by (simp add: MISWeight_def)
next
  case False
  let ?qs = "if 0 < s then Some (LightSubpath, nat (s - 1)) else None"
  let ?pt = "if 0 < t then Some (CameraSubpath, nat (t - 1)) else None"
  let ?qsMinus = "if 1 < s then Some (LightSubpath, nat (s - 2)) else None"
  let ?ptMinus = "if 1 < t then Some (CameraSubpath, nat (t - 2)) else None"
  from scoped_overwrites_total [OF assms False refl refl refl refl, of V sampled]
  obtain fr where fr: "scoped_overwrites V sampled s t ?qs ?pt ?qsMinus ?ptMinus m = Some fr"
    and sh: "shape (snd fr) = shape m" by blast
  from assms have b: "0 \<le> s" "1 \<le> t" "s \<le> int (length (lightVertices m))"
    "t \<le> int (length (cameraVertices m))"
    by (simp_all add: strategy_in_range_def)
  from sh have len: "length (cameraVertices (snd fr)) = length (cameraVertices m)"
    "length (lightVertices (snd fr)) = length (lightVertices m)"
    by (simp_all add: shape_def)
  have "nat (t - 1) < length (cameraVertices (snd fr))" using b len by simp
  from camera_walk_total [OF this, of "(1, 0)"]
  obtain ri1 sum1 where c: "camera_walk (cameraVertices (snd fr)) (nat (t - 1)) (1, 0)
      = Some (ri1, sum1)" by (metis surj_pair)
  have "nat s \<le> length (lightVertices (snd fr))" using b len by simp
  from light_walk_total [OF this, of V "(1, sum1)"]
  obtain ri2 sum2 where l: "light_walk V (lightVertices (snd fr)) (nat s) (1, sum1)
      = Some (ri2, sum2)" by (metis surj_pair)
  from scoped_overwrites_unwinds [OF fr]
  have u: "unwind (fst fr) (snd fr) = Some m" by (simp add: unwinds_to_def)
  from False fr c l u show ?thesis by (simp add: MISWeight_def Let_def)
qed

text \<open>
  The updates are in effect while the sums are computed: on the example, the camera
  vertex at the connection is a delta vertex before and after the call, and is not one
  in between, and the light subpath holds the sampled vertex in between.
\<close>

lemma scoped_overwrites_in_effect:
  "delta (cameraVertices demo_paths ! 1) \<and>
   map_option (\<lambda>fr. (delta (cameraVertices (snd fr) ! 1), pdfFwd (lightVertices (snd fr) ! 0)))
     (scoped_overwrites demo_vertex_env (demo_vertex Light True 9 9) 1 2
        (Some (LightSubpath, 0)) (Some (CameraSubpath, 1)) None (Some (CameraSubpath, 0))
        demo_paths)
     = Some (False, 9)"
  by code_simp

text \<open>
  C1. Whenever \<^verbatim>\<open>MISWeight\<close> returns, whatever the vertex environment, the subpaths,
  the sampled vertex and the strategy \<open>(s, t)\<close>, both subpath arrays are equal to what
  they were before the call: the inserted sampled vertex, the cleared delta flags and
  the overwritten reverse densities are all undone. And it does return for every
  strategy in range (\<open>0 \<le> s \<le>\<close> number of light vertices, \<open>1 \<le> t \<le>\<close> number of camera
  vertices, \<open>2 \<le> s + t\<close>).
\<close>

theorem MISWeight_restores_subpaths:
  "(MISWeight V m sampled s t = Some (w, m') \<longrightarrow> m' = m) \<and>
   (strategy_in_range m s t \<longrightarrow> (\<exists>w. MISWeight V m sampled s t = Some (w, m)))"
  using MISWeight_frame MISWeight_total by blast

theorem MISWeight_restores_subpaths_witness:
  "strategy_in_range demo_paths 1 2 \<and>
   MISWeight demo_vertex_env demo_paths (demo_vertex Light True 9 9) 1 2
     = Some (9 / 29, demo_paths)"
proof -
  have r: "strategy_in_range demo_paths 1 2"
    by (simp add: strategy_in_range_def demo_paths_def)
  have e: "map_option fst (MISWeight demo_vertex_env demo_paths (demo_vertex Light True 9 9) 1 2)
             = Some (9 / 29)"
    by code_simp
  from MISWeight_restores_subpaths
         [where V = demo_vertex_env and m = demo_paths and s = 1 and t = 2
            and sampled = "demo_vertex Light True 9 9"] r
  obtain w where "MISWeight demo_vertex_env demo_paths (demo_vertex Light True 9 9) 1 2
                    = Some (w, demo_paths)"
    by blast
  with e r show ?thesis by simp
qed

section \<open>The direct strategies have weight one\<close>

text \<open>
  C8. \<^verbatim>\<open>MISWeight\<close> returns exactly 1 whenever \<open>s + t = 2\<close>, for every input and without
  touching the subpaths; in particular for the strategy \<open>s = 0\<close>, \<open>t = 2\<close>.
\<close>

theorem MISWeight_direct_is_one:
  "s + t = 2 \<Longrightarrow> MISWeight V m sampled s t = Some (1, m)"
  by (simp add: MISWeight_def)

theorem MISWeight_direct_is_one_witness:
  "(0::int) + 2 = 2 \<and>
   MISWeight demo_vertex_env demo_paths (demo_vertex Light True 9 9) 0 2 = Some (1, demo_paths)"
  using MISWeight_direct_is_one [of 0 2 demo_vertex_env demo_paths "demo_vertex Light True 9 9"]
  by simp

section \<open>A zero contribution is not weighted\<close>

lemma ConnectBDPT_invalid_connection:
  assumes "1 < t" "s \<noteq> 0" "vertex_at m CameraSubpath (t - 1) = Some v" "vtype v = Light"
  shows "ConnectBDPT V m s t smp pRaster misWeightPtr stats =
           Some \<lparr>radiance = black V, subpaths_after = m, sampler_after = smp,
                  pRaster_after = pRaster, misWeight_after = misWeightPtr,
                  stats_after = stats, MISWeight_calls = 0\<rparr>"
  using assms by (simp add: ConnectBDPT_def)

lemma ConnectBDPT_subpaths_unchanged:
  assumes "ConnectBDPT V m s t smp pRaster misWeightPtr stats = Some R"
  shows "subpaths_after R = m"
  using assms MISWeight_frame [of V m _ s t]
  by (auto simp: ConnectBDPT_def bind_eq_Some_conv Let_def split: if_splits prod.splits)

text \<open>
  C3. When \<^verbatim>\<open>ConnectBDPT\<close> computes a contribution \<open>L\<close> for a strategy \<open>(s, t)\<close> and \<open>L\<close>
  is black, it returns without calling \<^verbatim>\<open>MISWeight\<close>, the weight it reports through
  \<^verbatim>\<open>misWeightPtr\<close> is 0, and the radiance it returns is \<open>L\<close> scaled by 0, which is
  black provided that scaling a black spectrum by 0 gives a black spectrum. (A
  connection rejected before any contribution is computed, lemma
  \<open>ConnectBDPT_invalid_connection\<close>, returns \<^verbatim>\<open>Spectrum(0.f)\<close> without calling
  \<^verbatim>\<open>MISWeight\<close> either and leaves \<^verbatim>\<open>*misWeightPtr\<close> as the caller initialised it.)
\<close>

theorem ConnectBDPT_zero_skips_MIS:
  assumes zero_scale: "\<forall>L. IsBlack V L \<longrightarrow> IsBlack V (sscale V L 0)"
    and valid: "\<not> (1 < t \<and> s \<noteq> 0) \<or>
                (\<exists>v. vertex_at m CameraSubpath (t - 1) = Some v \<and> vtype v \<noteq> Light)"
    and conn: "connect_strategy V m s t smp pRaster = Some (L, sampled, smp', pRaster')"
    and zero: "IsBlack V L"
  shows "\<exists>R. ConnectBDPT V m s t smp pRaster misWeightPtr stats = Some R \<and>
             MISWeight_calls R = 0 \<and>
             misWeight_after R = map_option (\<lambda>_. 0) misWeightPtr \<and>
             radiance R = sscale V L 0 \<and> IsBlack V (radiance R) \<and>
             subpaths_after R = m \<and>
             zeroRadiancePaths (stats_after R) = zeroRadiancePaths stats + 1"
proof -
  from valid have inv: "(if 1 < t \<and> s \<noteq> 0
                   then map_option (\<lambda>v. vtype v = Light) (vertex_at m CameraSubpath (t - 1))
                   else Some False) = Some False"
    by auto
  show ?thesis
    unfolding ConnectBDPT_def inv
    using conn zero zero_scale
    by (cases misWeightPtr) (simp_all add: Let_def)
qed

theorem ConnectBDPT_zero_skips_MIS_witness:
  "\<exists>R. ConnectBDPT demo_bdpt_env demo_paths 2 2 0 0 (Some 5) demo_stats = Some R \<and>
       MISWeight_calls R = 0 \<and> misWeight_after R = Some 0 \<and> radiance R = 0 \<and>
       zeroRadiancePaths (stats_after R) = 1"
proof -
  have z: "\<forall>L. IsBlack demo_bdpt_env L \<longrightarrow> IsBlack demo_bdpt_env (sscale demo_bdpt_env L 0)"
    by (simp add: demo_bdpt_env_def)
  have v: "\<not> (1 < (2::int) \<and> (2::int) \<noteq> 0) \<or>
           (\<exists>v. vertex_at demo_paths CameraSubpath (2 - 1) = Some v \<and> vtype v \<noteq> Light)"
    by (simp add: vertex_at_def demo_paths_def demo_vertex_def)
  have c: "connect_strategy demo_bdpt_env demo_paths 2 2 0 0
             = Some (0, default_vertex demo_bdpt_env, 0, 0)"
    by (simp add: connect_strategy_def vertex_at_def demo_paths_def demo_vertex_def
                  demo_bdpt_env_def)
  have b: "IsBlack demo_bdpt_env 0" by (simp add: demo_bdpt_env_def)
  from ConnectBDPT_zero_skips_MIS [OF z v c b, of "Some 5" demo_stats]
  show ?thesis by (auto simp: demo_stats_def demo_bdpt_env_def)
qed

section \<open>Every strategy of a pixel sample is connected once\<close>

lemma sample_strategies_guard:
  "sample_strategies nCamera nLight maxDepth =
     concat (map (\<lambda>t. concat (map (strategy_guard maxDepth t) [0..nLight])) [1..nCamera])"
  by (simp add: sample_strategies_def strategy_guard_def [abs_def])

lemma accounted_body:
  assumes "accounted st0 ks st"
  shows "accounted st0 (ks @ strategy_guard maxDepth t s)
           (strategy_body SP connect maxDepth vS vW pFilm t s st)"
proof (cases "(s = 1 \<and> t = 1) \<or> t + s - 2 < 0 \<or> t + s - 2 > maxDepth")
  case True
  with assms show ?thesis by (simp add: strategy_body_def strategy_guard_def Let_def)
next
  case False
  from assms obtain new where new: "connect_log st = connect_log st0 @ new"
    "log_strategies new = ks" "film_splats st = film_splats st0 @ log_splats new"
    "Lsum st = foldl (+) (Lsum st0) (log_radiances new)"
    by (auto simp: accounted_def)
  obtain Lpath pFilmNew misWeight c
    where c: "connect s t pFilm 0 (connect_state st) = ((Lpath, pFilmNew, misWeight), c)"
    by (metis surj_pair)
  let ?new = "new @ [(s, t, Lpath, pFilmNew)]"
  let ?st = "strategy_body SP connect maxDepth vS vW pFilm t s st"
  have 1: "connect_log ?st = connect_log st0 @ ?new"
    using False c new(1) by (simp add: strategy_body_def Let_def)
  have 2: "log_strategies ?new = ks @ strategy_guard maxDepth t s"
    using False new(2) by (simp add: log_strategies_def strategy_guard_def Let_def)
  have 3: "film_splats ?st = film_splats st0 @ log_splats ?new"
    using False c new(3) by (simp add: strategy_body_def Let_def log_splats_def AddSplat_def)
  have 4: "Lsum ?st = foldl (+) (Lsum st0) (log_radiances ?new)"
    using False c new(4) by (simp add: strategy_body_def Let_def log_radiances_def)
  from 1 2 3 4 show ?thesis unfolding accounted_def by blast
qed

lemma accounted_inner:
  assumes "accounted st0 ks st"
  shows "accounted st0 (ks @ concat (map (strategy_guard maxDepth t) ss))
           (foldl (\<lambda>st s. strategy_body SP connect maxDepth vS vW pFilm t s st) st ss)"
  using assms
proof (induction ss arbitrary: ks st)
  case Nil
  then show ?case by simp
next
  case (Cons s ss)
  from Cons.IH [OF accounted_body [OF Cons.prems, of maxDepth t s SP connect vS vW pFilm]]
  show ?case by simp
qed

lemma accounted_outer:
  assumes "accounted st0 ks st"
  shows "accounted st0
           (ks @ concat (map (\<lambda>t. concat (map (strategy_guard maxDepth t) ss)) ts))
           (foldl (\<lambda>st t.
              foldl (\<lambda>st s. strategy_body SP connect maxDepth vS vW pFilm t s st) st ss)
            st ts)"
  using assms
proof (induction ts arbitrary: ks st)
  case Nil
  then show ?case by simp
next
  case (Cons t ts)
  from Cons.IH [OF accounted_inner [OF Cons.prems, of maxDepth t ss SP connect vS vW pFilm]]
  show ?case by simp
qed

lemma accounted_refl: "accounted st0 [] st0"
  by (simp add: accounted_def log_strategies_def log_splats_def log_radiances_def)

lemma connect_strategies_accounted:
  "accounted st0 (sample_strategies nCamera nLight maxDepth)
     (connect_strategies SP connect maxDepth vS vW pFilm nCamera nLight st0)"
  using accounted_outer [OF accounted_refl, of st0 maxDepth "[0..nLight]" "[1..nCamera]"
      SP connect vS vW pFilm]
  by (simp add: connect_strategies_def sample_strategies_guard)

lemma distinct_sample_strategies: "distinct (sample_strategies nCamera nLight maxDepth)"
  unfolding sample_strategies_guard
proof (rule distinct_concat_map)
  show "distinct [1..nCamera]" by simp
next
  fix t
  show "distinct (concat (map (strategy_guard maxDepth t) [0..nLight]))"
    by (rule distinct_concat_map) (auto simp: strategy_guard_def Let_def)
next
  fix t t' :: int assume "t \<noteq> t'"
  then show "set (concat (map (strategy_guard maxDepth t) [0..nLight])) \<inter>
             set (concat (map (strategy_guard maxDepth t') [0..nLight])) = {}"
    by (auto simp: strategy_guard_def Let_def split: if_splits)
qed

lemma count_list_distinct:
  "distinct xs \<Longrightarrow> count_list xs x = (if x \<in> set xs then 1 else 0)"
  by (induction xs) auto

lemma render_sample_log:
  "log_strategies (connect_log (fst (render_sample SP connect maxDepth vS vW pFilm nCamera nLight
       c fsplats wsplats))) = sample_strategies nCamera nLight maxDepth"
  using connect_strategies_accounted
    [of "\<lparr>Lsum = 0, film_splats = fsplats, weight_splats = wsplats, connect_log = [],
          connect_state = c\<rparr>" nCamera nLight maxDepth SP connect vS vW pFilm]
  by (auto simp: render_sample_def accounted_def Let_def)

lemma render_sample_effects:
  "film_splats (fst (render_sample SP connect maxDepth vS vW pFilm nCamera nLight c fsplats
       wsplats)) =
     fsplats @ log_splats (connect_log (fst (render_sample SP connect maxDepth vS vW pFilm
       nCamera nLight c fsplats wsplats)))"
  "snd (render_sample SP connect maxDepth vS vW pFilm nCamera nLight c fsplats wsplats) =
     (pFilm, foldl (+) 0 (log_radiances (connect_log (fst (render_sample SP connect maxDepth
        vS vW pFilm nCamera nLight c fsplats wsplats)))))"
  using connect_strategies_accounted
    [of "\<lparr>Lsum = 0, film_splats = fsplats, weight_splats = wsplats, connect_log = [],
          connect_state = c\<rparr>" nCamera nLight maxDepth SP connect vS vW pFilm]
  by (auto simp: render_sample_def accounted_def Let_def)

lemma count_sample_strategies:
  "count_list (sample_strategies nCamera nLight maxDepth) (s, t) =
     (if 1 \<le> t \<and> t \<le> nCamera \<and> 0 \<le> s \<and> s \<le> nLight
         \<and> 0 \<le> s + t - 2 \<and> s + t - 2 \<le> maxDepth \<and> (s, t) \<noteq> (1, 1)
      then 1 else 0)"
  unfolding count_list_distinct [OF distinct_sample_strategies] sample_strategies_ok
  by (auto simp: strategy_ok_def)

text \<open>
  C5, as the code has it. In one pixel sample with \<open>nCamera\<close> camera vertices and
  \<open>nLight\<close> light vertices, \<^verbatim>\<open>ConnectBDPT\<close> is called exactly once for every pair
  \<open>(s, t)\<close> other than \<open>(1, 1)\<close> with \<open>1 \<le> t \<le> nCamera\<close>, \<open>0 \<le> s \<le> nLight\<close> and
  \<open>0 \<le> s + t - 2 \<le> maxDepth\<close>, and for no other pair; the results of the \<open>t = 1\<close>
  strategies are splatted to the film at the raster positions that \<^verbatim>\<open>ConnectBDPT\<close>
  returned, in the order of the calls, and the results of all other strategies are
  summed, in that order, into the radiance \<^verbatim>\<open>L\<close> that is added to the pixel's sample
  at \<^verbatim>\<open>pFilm\<close>.
\<close>

theorem render_sample_connects_each_strategy_once:
  "(\<forall>s t. count_list (log_strategies (connect_log (fst (render_sample SP connect maxDepth vS vW
              pFilm nCamera nLight c fsplats wsplats)))) (s, t) =
      (if 1 \<le> t \<and> t \<le> nCamera \<and> 0 \<le> s \<and> s \<le> nLight
          \<and> 0 \<le> s + t - 2 \<and> s + t - 2 \<le> maxDepth \<and> (s, t) \<noteq> (1, 1)
       then 1 else 0)) \<and>
   film_splats (fst (render_sample SP connect maxDepth vS vW pFilm nCamera nLight c fsplats
       wsplats)) =
     fsplats @ log_splats (connect_log (fst (render_sample SP connect maxDepth vS vW pFilm
       nCamera nLight c fsplats wsplats))) \<and>
   snd (render_sample SP connect maxDepth vS vW pFilm nCamera nLight c fsplats wsplats) =
     (pFilm, foldl (+) 0 (log_radiances (connect_log (fst (render_sample SP connect maxDepth
        vS vW pFilm nCamera nLight c fsplats wsplats)))))"
  using render_sample_effects [of SP connect maxDepth vS vW pFilm nCamera nLight c fsplats wsplats]
  by (simp add: render_sample_log count_sample_strategies)

theorem render_sample_connects_each_strategy_once_witness:
  "count_list (log_strategies (connect_log (fst (render_sample demo_spectrum demo_connect 1 False
       True 0 2 1 () [] [])))) (1, 2) = 1 \<and>
   count_list (log_strategies (connect_log (fst (render_sample demo_spectrum demo_connect 1 False
       True 0 2 1 () [] [])))) (1, 1) = 0"
  using render_sample_connects_each_strategy_once
    [of demo_spectrum demo_connect 1 False True 0 2 1 "()" "[]" "[]"]
  by simp

text \<open>
  The pair \<open>(1, 1)\<close> satisfies \<open>1 \<le> t \<le> nCamera\<close>, \<open>0 \<le> s \<le> nLight\<close> and
  \<open>0 \<le> s + t - 2 \<le> maxDepth\<close> for \<open>nCamera = nLight = 1\<close> and \<open>maxDepth = 0\<close>, and
  \<^verbatim>\<open>ConnectBDPT\<close> is not called for it: the guard of line 372 skips it.
\<close>

theorem render_sample_skips_s1_t1:
  "\<not> (\<forall>s t. 1 \<le> t \<and> t \<le> 1 \<and> 0 \<le> s \<and> s \<le> 1 \<and> 0 \<le> s + t - 2 \<and> s + t - 2 \<le> 0 \<longrightarrow>
          count_list (log_strategies (connect_log (fst (render_sample demo_spectrum demo_connect
            0 False False 0 1 1 () [] [])))) (s, t) = 1)"
proof
  assume a: "\<forall>s t. 1 \<le> t \<and> t \<le> 1 \<and> 0 \<le> s \<and> s \<le> 1 \<and> 0 \<le> s + t - 2 \<and> s + t - 2 \<le> 0 \<longrightarrow>
          count_list (log_strategies (connect_log (fst (render_sample demo_spectrum demo_connect
            0 False False 0 1 1 () [] [])))) (s, t) = 1"
  have "count_list (log_strategies (connect_log (fst (render_sample demo_spectrum demo_connect
            0 False False 0 1 1 () [] [])))) (1, 1) = 0"
    by (simp add: render_sample_log count_sample_strategies)
  moreover from a have "count_list (log_strategies (connect_log (fst (render_sample
            demo_spectrum demo_connect 0 False False 0 1 1 () [] [])))) (1, 1) = 1"
    by simp
  ultimately show False by simp
qed

end
